theory Spec2Isabelle
  imports Main "HOL-Library.AList"
begin

section \<open>JSON values and the JavaScript operators applied to them\<close>

text \<open>
  The worker keeps all of its state in one JSON document and inspects the values
  dynamically (\<^verbatim>\<open>typeof\<close>, truthiness, property reads). JSON numbers are the
  integers (epoch seconds, counters, HTTP status codes); fractional numbers do not
  occur in the document. An object is an association list in key order. The value
  \<^verbatim>\<open>undefined\<close> is \<open>None\<close> of \<open>json option\<close>.
\<close>

datatype json =
    JNull
  | JBool bool
  | JNum int
  | JStr string
  | JArr "json list"
  | JObj "(string \<times> json) list"

text \<open>
  Exceptions; every thrown value of the worker is an \<^verbatim>\<open>Error\<close> with a message. The
  messages of the engine's own errors are those of V8, the engine the worker runs on.
  Two of them depend on more than the code: the \<^verbatim>\<open>SyntaxError\<close> of \<^verbatim>\<open>JSON.parse\<close>
  quotes the text it read, and the \<^verbatim>\<open>TypeError\<close> of a failed assignment in
  \<^verbatim>\<open>runPresence\<close> names the key and the value; the model gives these two the fixed
  beginning of the message.
\<close>

datatype exn = Error string | TypeError string | SyntaxError string

fun message :: "exn \<Rightarrow> string" where
  "message (Error m) = m"
| "message (TypeError m) = m"
| "message (SyntaxError m) = m"

text \<open>Truthiness, as \<^verbatim>\<open>!x\<close>, \<^verbatim>\<open>x || y\<close> and \<^verbatim>\<open>if (x)\<close> test it.\<close>

fun truthy :: "json \<Rightarrow> bool" where
  "truthy JNull = False"
| "truthy (JBool b) = b"
| "truthy (JNum n) = (n \<noteq> 0)"
| "truthy (JStr s) = (s \<noteq> [])"
| "truthy (JArr xs) = True"
| "truthy (JObj kvs) = True"

fun truthyU :: "json option \<Rightarrow> bool" where
  "truthyU None = False"
| "truthyU (Some j) = truthy j"

text \<open>\<^verbatim>\<open>x || d\<close> on a possibly undefined value.\<close>

definition orElse :: "json option \<Rightarrow> json \<Rightarrow> json" where
  "orElse x d = (case x of None \<Rightarrow> d | Some j \<Rightarrow> if truthy j then j else d)"

text \<open>
  A read of one of the named properties the worker uses (\<^verbatim>\<open>cached_at\<close>,
  \<^verbatim>\<open>expiresAt\<close>, \<^verbatim>\<open>online\<close>, \<^verbatim>\<open>last_info\<close>, \<^verbatim>\<open>ok\<close>, \<^verbatim>\<open>cid\<close>, \<^verbatim>\<open>cids\<close>,
  \<^verbatim>\<open>cursor\<close>, \<^verbatim>\<open>total\<close>) on a value that is not null: only an object can carry
  them; on an array, a string, a number or a boolean the read gives \<^verbatim>\<open>undefined\<close>.
\<close>

fun getProp :: "json \<Rightarrow> string \<Rightarrow> json option" where
  "getProp (JObj kvs) k = map_of kvs k"
| "getProp _ k = None"

text \<open>\<^verbatim>\<open>typeof x === 'object'\<close> for a truthy value.\<close>

fun isObjectType :: "json \<Rightarrow> bool" where
  "isObjectType (JObj kvs) = True"
| "isObjectType (JArr xs) = True"
| "isObjectType JNull = True"
| "isObjectType _ = False"

subsection \<open>Decimal digits, \<^verbatim>\<open>Number\<close> and \<^verbatim>\<open>String\<close>\<close>

definition is_digit :: "char \<Rightarrow> bool" where
  "is_digit c = (c \<in> set ''0123456789'')"

text \<open>A digit's value is its place in \<open>''0123456789''\<close>; other characters count 0.\<close>

definition digit_val :: "char \<Rightarrow> nat" where
  "digit_val c =
     (if is_digit c then length (takeWhile (\<lambda>d. d \<noteq> c) ''0123456789'') else 0)"

definition digit_char :: "nat \<Rightarrow> char" where
  "digit_char n = ''0123456789'' ! (n mod 10)"

text \<open>The integer a digit string denotes.\<close>

definition str_val :: "string \<Rightarrow> nat" where
  "str_val s = foldl (\<lambda>a c. 10 * a + digit_val c) 0 s"

text \<open>\<^verbatim>\<open>String(n)\<close> of a non-negative integer: its decimal digits.\<close>

fun dec :: "nat \<Rightarrow> string" where
  "dec n = (if n < 10 then [digit_char n] else dec (n div 10) @ [digit_char (n mod 10)])"

declare dec.simps [simp del]

definition decInt :: "int \<Rightarrow> string" where
  "decInt i = (if i < 0 then CHR ''-'' # dec (nat (- i)) else dec (nat i))"

text \<open>
  A JavaScript number as far as the worker computes with one: an integer or
  \<^verbatim>\<open>NaN\<close>. \<^verbatim>\<open>Number(s)\<close> of a string is modelled on the strings the worker converts,
  the empty string and digit strings (exact below \<open>2 ^ 53\<close>, which covers the at most
  ten digits of a CID); any other string is taken to \<^verbatim>\<open>NaN\<close>.
\<close>

datatype jsnum = Num nat | NaN

definition jsNumber :: "string \<Rightarrow> jsnum" where
  "jsNumber s = (if list_all is_digit s then Num (str_val s) else NaN)"

fun jsNumString :: "jsnum \<Rightarrow> string" where
  "jsNumString (Num n) = dec n"
| "jsNumString NaN = ''NaN''"

text \<open>
  \<^verbatim>\<open>String(x)\<close> of a JSON value; an array joins its elements with commas, printing
  null elements as the empty string.
\<close>

fun intersperse :: "string \<Rightarrow> string list \<Rightarrow> string" where
  "intersperse sep [] = []"
| "intersperse sep [x] = x"
| "intersperse sep (x # y # ys) = x @ sep @ intersperse sep (y # ys)"

fun jsString :: "json \<Rightarrow> string" where
  "jsString JNull = ''null''"
| "jsString (JBool b) = (if b then ''true'' else ''false'')"
| "jsString (JNum n) = decInt n"
| "jsString (JStr s) = s"
| "jsString (JArr xs) = intersperse '','' (map (\<lambda>x. if x = JNull then [] else jsString x) xs)"
| "jsString (JObj kvs) = ''[object Object]''"

subsection \<open>CID canonicalisation\<close>

text \<open>
  \<^verbatim>\<open>function canonicalCID(s){ const d=(s||"").replace(/\D+/g,"");
     if(!/^\d{3,10}$/.test(d)) return null; return String(Number(d)); }\<close>

  A falsy argument becomes the empty string. A truthy argument that is not a string
  (a number, \<^verbatim>\<open>true\<close>, an array, an object) has no \<^verbatim>\<open>replace\<close> method, so the call
  throws a \<^verbatim>\<open>TypeError\<close>. The result \<open>None\<close> is \<^verbatim>\<open>null\<close>.
\<close>

definition canonicalCID :: "json option \<Rightarrow> exn + string option" where
  \<open>canonicalCID s =
     (case orElse s (JStr []) of
        JStr str \<Rightarrow>
          (let d = filter is_digit str in
           if \<not> (3 \<le> length d \<and> length d \<le> 10) then Inr None
           else Inr (Some (jsNumString (jsNumber d))))
      | _ \<Rightarrow> Inl (TypeError ''(s || "").replace is not a function''))\<close>

section \<open>The worker's environment, the network and the module state\<close>

record env =
  GITHUB_DIR :: "string option"
  GITHUB_REPO :: string
  GITHUB_BRANCH :: "string option"
  GITHUB_TOKEN :: string
  ALLOWED_ORIGIN :: "string option"

text \<open>\<^verbatim>\<open>x || d\<close> on an optional string: absent and empty are falsy.\<close>

definition strOr :: "string option \<Rightarrow> string \<Rightarrow> string" where
  "strOr x d = (case x of None \<Rightarrow> d | Some s \<Rightarrow> if s = [] then d else s)"

text \<open>\<^verbatim>\<open>x || null\<close> on an optional string.\<close>

definition orNull :: "string option \<Rightarrow> string option" where
  "orNull x = (case x of None \<Rightarrow> None | Some s \<Rightarrow> if s = [] then None else Some s)"

text \<open>The store document: a JSON object, key to value.\<close>

type_synonym store = "(string \<times> json) list"

text \<open>
  What the worker reads of a response body. The file content of a GitHub
  \<^verbatim>\<open>GET contents\<close> reply is absent, not parseable (\<^verbatim>\<open>JSON.parse\<close> throws) or a
  document; a file that holds a JSON value other than an object is not among the
  replies of this network. A \<^verbatim>\<open>PUT contents\<close> reply names the new commit's
  \<^verbatim>\<open>content.sha\<close>. A live-feed reply lists controllers, whose \<^verbatim>\<open>callsign\<close>,
  \<^verbatim>\<open>frequency\<close> and \<^verbatim>\<open>name\<close> are strings when present. A reply of one kind that
  arrives where another is read stands for a body without the fields read there,
  the empty object \<^verbatim>\<open>{}\<close>.
\<close>

datatype content = ContentAbsent | ContentInvalid | ContentDoc store

record controller =
  c_cid :: "json option"
  c_callsign :: "string option"
  c_frequency :: "string option"
  c_name :: "string option"

datatype body =
    NoBody
  | GhFile "string option" content
  | GhCommit "string option"
  | Feed "controller list"

record response =
  rs_status :: nat
  rs_text :: string
  rs_body :: body

definition rs_ok :: "response \<Rightarrow> bool" where
  "rs_ok r = (200 \<le> rs_status r \<and> rs_status r \<le> 299)"

text \<open>One \<^verbatim>\<open>fetch\<close> either rejects (network failure, abort on timeout) or resolves.\<close>

datatype outcome = NetFail | Resp response

record put_body =
  pb_message :: string
  pb_branch :: string
  pb_content :: store
  pb_sha :: "string option"

datatype request =
    GhGetReq string string string
  | GhPutReq string string put_body
  | DataReq string

record clock =
  epoch :: int
  utcFullYear :: int
  utcMonth :: nat
  utcDate :: nat
  utcHours :: nat
  isoString :: string

text \<open>
  The module-level variables \<^verbatim>\<open>GH_STORE\<close>, \<^verbatim>\<open>GH_STORE_SHA\<close>, \<^verbatim>\<open>GH_STORE_DIRTY\<close> and
  \<^verbatim>\<open>subreqCount\<close>, together with the outside world: \<open>net\<close> holds the outcomes of the
  \<^verbatim>\<open>fetch\<close> calls still to come, in order (none left: the network is unreachable),
  \<open>sent\<close> the requests fetched so far, \<open>now\<close> the wall clock, which is read as one
  instant throughout a call.
\<close>

record world =
  GH_STORE :: "store option"
  GH_STORE_SHA :: "string option"
  GH_STORE_DIRTY :: bool
  subreqCount :: nat
  net :: "outcome list"
  sent :: "request list"
  now :: clock

text \<open>An asynchronous function: it returns or throws, and changes the world.\<close>

type_synonym 'a M = "world \<Rightarrow> (exn + 'a) \<times> world"

definition returnM :: "'a \<Rightarrow> 'a M" where
  "returnM x = (\<lambda>w. (Inr x, w))"

definition throwM :: "exn \<Rightarrow> 'a M" where
  "throwM e = (\<lambda>w. (Inl e, w))"

definition bindM :: "'a M \<Rightarrow> ('a \<Rightarrow> 'b M) \<Rightarrow> 'b M" where
  "bindM m f = (\<lambda>w. case m w of (Inl e, w') \<Rightarrow> (Inl e, w') | (Inr x, w') \<Rightarrow> f x w')"

definition SUBREQ_BUDGET_PER_TICK :: nat where
  "SUBREQ_BUDGET_PER_TICK = 120"

definition ts :: "world \<Rightarrow> int" where
  "ts w = epoch (now w)"

definition resetBudgets :: "world \<Rightarrow> world" where
  "resetBudgets w = w\<lparr>subreqCount := 0\<rparr>"

definition fetch :: "request \<Rightarrow> world \<Rightarrow> outcome \<times> world" where
  "fetch rq w =
     (case net w of
        [] \<Rightarrow> (NetFail, w\<lparr>sent := sent w @ [rq]\<rparr>)
      | out # rest \<Rightarrow> (out, w\<lparr>net := rest, sent := sent w @ [rq]\<rparr>))"

subsection \<open>The GitHub transport\<close>

definition retryable :: "nat \<Rightarrow> bool" where
  "retryable st = (st = 403 \<or> st = 429 \<or> 500 \<le> st)"

text \<open>
  \<^verbatim>\<open>ghFetch(url, init, maxAttempts=3)\<close>: the first argument counts the attempts left,
  this one included (\<^verbatim>\<open>attempt >= maxAttempts\<close> is "one left"). The sleeps between
  attempts only pass time. \<open>None\<close> is \<^verbatim>\<open>null\<close>.
\<close>

fun ghFetchLoop :: "nat \<Rightarrow> request \<Rightarrow> world \<Rightarrow> response option \<times> world" where
  "ghFetchLoop 0 rq w = (None, w)"
| "ghFetchLoop (Suc left) rq w =
     (case fetch rq w of
        (NetFail, w') \<Rightarrow> if left = 0 then (None, w') else ghFetchLoop left rq w'
      | (Resp res, w') \<Rightarrow>
          if retryable (rs_status res) \<and> left \<noteq> 0 then ghFetchLoop left rq w'
          else (Some res, w'))"

definition ghFetch :: "request \<Rightarrow> world \<Rightarrow> response option \<times> world" where
  "ghFetch rq w = ghFetchLoop 3 rq w"

text \<open>
  The result objects of \<^verbatim>\<open>ghGet\<close> and \<^verbatim>\<open>ghPut\<close>: \<^verbatim>\<open>{ok:true, sha, json}\<close>
  (\<^verbatim>\<open>ghPut\<close> has no \<^verbatim>\<open>json\<close>) or \<^verbatim>\<open>{ok:false, status, text}\<close>.
\<close>

datatype gh_result = GhOk "string option" "store option" | GhFail nat "string option"

definition ghGet :: "env \<Rightarrow> string \<Rightarrow> gh_result M" where
  "ghGet e path = (\<lambda>w.
     if subreqCount w \<ge> SUBREQ_BUDGET_PER_TICK then (Inl (Error ''subrequest budget''), w)
     else
       (case ghFetch (GhGetReq (GITHUB_REPO e) path (strOr (GITHUB_BRANCH e) ''main''))
               (w\<lparr>subreqCount := subreqCount w + 1\<rparr>) of
          (None, w') \<Rightarrow> (Inr (GhFail 0 (Some ''github fetch failed'')), w')
        | (Some r, w') \<Rightarrow>
            if rs_status r = 404 then (Inr (GhFail 404 None), w')
            else if \<not> rs_ok r then (Inr (GhFail (rs_status r) (Some (rs_text r))), w')
            else
              (case rs_body r of
                 GhFile sha ContentAbsent \<Rightarrow> (Inr (GhOk sha (Some [])), w')
               | GhFile sha (ContentDoc d) \<Rightarrow> (Inr (GhOk sha (Some d)), w')
               | GhFile sha ContentInvalid \<Rightarrow> (Inl (SyntaxError ''Unexpected token''), w')
               | _ \<Rightarrow> (Inr (GhOk None (Some [])), w'))))"

text \<open>
  The request \<^verbatim>\<open>ghPut\<close> sends: the \<^verbatim>\<open>sha\<close> precondition is part of the body only when
  \<^verbatim>\<open>prevSha\<close> is truthy.
\<close>

definition putRequest :: "env \<Rightarrow> string \<Rightarrow> store \<Rightarrow> string option \<Rightarrow> string \<Rightarrow> request" where
  "putRequest e path obj prevSha msg =
     GhPutReq (GITHUB_REPO e) path
       \<lparr>pb_message = (if msg = [] then ''bot: update '' @ path else msg),
        pb_branch = strOr (GITHUB_BRANCH e) ''main'',
        pb_content = obj,
        pb_sha = orNull prevSha\<rparr>"

definition ghPut :: "env \<Rightarrow> string \<Rightarrow> store \<Rightarrow> string option \<Rightarrow> string \<Rightarrow> gh_result M" where
  "ghPut e path obj prevSha msg = (\<lambda>w.
     if subreqCount w \<ge> SUBREQ_BUDGET_PER_TICK then (Inl (Error ''subrequest budget''), w)
     else
       (case ghFetch (putRequest e path obj prevSha msg)
               (w\<lparr>subreqCount := subreqCount w + 1\<rparr>) of
          (None, w') \<Rightarrow> (Inr (GhFail 0 (Some ''github fetch failed'')), w')
        | (Some r, w') \<Rightarrow>
            if \<not> rs_ok r then (Inr (GhFail (rs_status r) (Some (rs_text r))), w')
            else
              (case rs_body r of
                 GhCommit sha \<Rightarrow> (Inr (GhOk (orNull sha) None), w')
               | _ \<Rightarrow> (Inr (GhOk None None), w'))))"

subsection \<open>The single-file store\<close>

definition storePath :: "env \<Rightarrow> string" where
  "storePath e = strOr (GITHUB_DIR e) ''cf-cache'' @ ''/store.json''"

definition storeLoad :: "env \<Rightarrow> unit M" where
  "storeLoad e = (\<lambda>w.
     if GH_STORE w \<noteq> None then (Inr (), w)
     else bindM (ghGet e (storePath e)) (\<lambda>r.
       case r of
         GhOk sha doc \<Rightarrow>
           (\<lambda>w'. (Inr (), w'\<lparr>GH_STORE := Some (case doc of None \<Rightarrow> [] | Some d \<Rightarrow> d),
                             GH_STORE_SHA := orNull sha\<rparr>))
       | GhFail st txt \<Rightarrow>
           if st = 404 then (\<lambda>w'. (Inr (), w'\<lparr>GH_STORE := Some []\<rparr>))
           else throwM (Error (''GitHub GET failed '' @ dec st))) w)"

text \<open>
  The document in memory. \<^verbatim>\<open>GH_STORE\<close> is \<^verbatim>\<open>null\<close> only before the first load, and
  every reader below loads first.
\<close>

definition doc :: "world \<Rightarrow> store" where
  "doc w = (case GH_STORE w of None \<Rightarrow> [] | Some st \<Rightarrow> st)"

text \<open>
  \<^verbatim>\<open>{ ...remote, ...local }\<close>: every own key of \<open>local\<close>, in order, is assigned
  its value on a copy of \<open>remote\<close>.
\<close>

definition shallowMerge :: "store \<Rightarrow> store \<Rightarrow> store" where
  "shallowMerge remote local =
     fold (\<lambda>k m. case map_of local k of None \<Rightarrow> m | Some v \<Rightarrow> AList.update k v m)
       (map fst local) remote"

text \<open>The error of a failed flush: \<^verbatim>\<open>`GitHub PUT failed ${r.status}: ${r.text?.slice(0,200)||""}`\<close>.\<close>

definition putFailed :: "nat \<Rightarrow> string option \<Rightarrow> exn" where
  "putFailed st txt =
     Error (''GitHub PUT failed '' @ dec st @ '': '' @
            (case txt of None \<Rightarrow> [] | Some t \<Rightarrow> take 200 t))"

definition storeFlush :: "env \<Rightarrow> string \<Rightarrow> unit M" where
  "storeFlush e msg = (\<lambda>w.
     if \<not> GH_STORE_DIRTY w then (Inr (), w)
     else
       bindM (ghPut e (storePath e) (doc w) (GH_STORE_SHA w) msg) (\<lambda>r.
       bindM
         (case r of
            GhFail st txt \<Rightarrow>
              if st = 409 then
                bindM (ghGet e (storePath e)) (\<lambda>remote.
                  case remote of
                    GhOk rsha rdoc \<Rightarrow>
                      (\<lambda>w2.
                         let merged = shallowMerge (case rdoc of None \<Rightarrow> [] | Some d \<Rightarrow> d) (doc w2);
                             w3 = w2\<lparr>GH_STORE := Some merged, GH_STORE_SHA := orNull rsha\<rparr>
                         in ghPut e (storePath e) merged (orNull rsha) msg w3)
                  | GhFail st' txt' \<Rightarrow> returnM r)
              else returnM r
          | GhOk sha d \<Rightarrow> returnM r)
         (\<lambda>r'.
            case r' of
              GhFail st txt \<Rightarrow> throwM (putFailed st txt)
            | GhOk sha d \<Rightarrow>
                (\<lambda>w4. (Inr (), w4\<lparr>GH_STORE_SHA := (case orNull sha of None \<Rightarrow> GH_STORE_SHA w4
                                                         | Some s \<Rightarrow> Some s),
                                  GH_STORE_DIRTY := False\<rparr>)))) w)"

definition storeGet :: "string \<Rightarrow> json \<Rightarrow> world \<Rightarrow> json" where
  "storeGet key fb w = (case map_of (doc w) key of None \<Rightarrow> fb | Some v \<Rightarrow> v)"

definition storeSet :: "string \<Rightarrow> json \<Rightarrow> world \<Rightarrow> world" where
  "storeSet key val w = w\<lparr>GH_STORE := Some (AList.update key val (doc w)), GH_STORE_DIRTY := True\<rparr>"

definition storeDel :: "string \<Rightarrow> world \<Rightarrow> world" where
  "storeDel key w =
     (if map_of (doc w) key \<noteq> None
      then w\<lparr>GH_STORE := Some (AList.delete key (doc w)), GH_STORE_DIRTY := True\<rparr>
      else w)"

definition kvGetJSON :: "env \<Rightarrow> string \<Rightarrow> json \<Rightarrow> json M" where
  "kvGetJSON e key fb = bindM (storeLoad e) (\<lambda>u w. (Inr (storeGet key fb w), w))"

definition kvPutJSON :: "env \<Rightarrow> string \<Rightarrow> json \<Rightarrow> unit M" where
  "kvPutJSON e key obj = bindM (storeLoad e) (\<lambda>u w. (Inr (), storeSet key obj w))"

definition kvDelete :: "env \<Rightarrow> string \<Rightarrow> unit M" where
  "kvDelete e key = bindM (storeLoad e) (\<lambda>u w. (Inr (), storeDel key w))"

text \<open>
  \<^verbatim>\<open>cacheGet(env, key, maxAgeSec)\<close>; \<open>maxAgeSec = None\<close> is a call without the third
  argument. The result \<open>JNull\<close> is \<^verbatim>\<open>null\<close>.
\<close>

definition cacheGet :: "env \<Rightarrow> string \<Rightarrow> int option \<Rightarrow> json M" where
  "cacheGet e key maxAgeSec =
     bindM (kvGetJSON e key JNull) (\<lambda>j w.
       if \<not> truthy j then (Inr JNull, w)
       else
         let t = (case getProp j ''cached_at'' of Some (JNum c) \<Rightarrow> Some c | _ \<Rightarrow> None) in
         if maxAgeSec = None \<or> maxAgeSec = Some 0 then (Inr j, w)
         else if t = None \<or> t = Some 0 then (Inr JNull, w)
         else if ts w - the t > the maxAgeSec then (Inr JNull, w)
         else (Inr j, w))"

text \<open>\<^verbatim>\<open>{ ...obj, cached_at: ts() }\<close> for an object \<open>obj\<close> given by its fields.\<close>

definition cachePut :: "env \<Rightarrow> string \<Rightarrow> (string \<times> json) list \<Rightarrow> unit M" where
  "cachePut e key obj = (\<lambda>w.
     kvPutJSON e key (JObj (AList.update ''cached_at'' (JNum (ts w)) obj)) w)"

text \<open>
  \<^verbatim>\<open>trackedFetch(url, init)\<close>: a rejected fetch (also the abort after 25 s) is caught
  and becomes \<^verbatim>\<open>null\<close>.
\<close>

definition trackedFetch :: "string \<Rightarrow> world \<Rightarrow> response option \<times> world" where
  "trackedFetch url w =
     (if subreqCount w \<ge> SUBREQ_BUDGET_PER_TICK then (None, w)
      else
        (case fetch (DataReq url) (w\<lparr>subreqCount := subreqCount w + 1\<rparr>) of
           (NetFail, w') \<Rightarrow> (None, w')
         | (Resp r, w') \<Rightarrow> (Some r, w')))"

section \<open>Store cleanup\<close>

definition STORE_CLEANUP_INTERVAL :: int where
  "STORE_CLEANUP_INTERVAL = 6 * 60 * 60"

definition STORE_CLEANUP_KEY :: string where
  "STORE_CLEANUP_KEY = ''_last_cleanup''"

definition TTL_RATING_24H :: int where "TTL_RATING_24H = 24 * 60 * 60"
definition TTL_DIVISION_24H :: int where "TTL_DIVISION_24H = 24 * 60 * 60"
definition TTL_MEMBER_7D :: int where "TTL_MEMBER_7D = 7 * 24 * 60 * 60"
definition TTL_AUDIT_24H :: int where "TTL_AUDIT_24H = 24 * 60 * 60"

definition COOLDOWN_online :: int where "COOLDOWN_online = 15 * 60"
definition COOLDOWN_offline :: int where "COOLDOWN_offline = 15 * 60"
definition COOLDOWN_flag :: int where "COOLDOWN_flag = 24 * 60 * 60"

definition ttlMap :: "(string \<times> int) list" where
  "ttlMap =
     [(''rating:'', TTL_RATING_24H),
      (''division:'', TTL_DIVISION_24H),
      (''member:'', TTL_MEMBER_7D),
      (''membermeta:'', TTL_RATING_24H),
      (''audit:visiting:'', TTL_AUDIT_24H),
      (''audit:local:'', TTL_AUDIT_24H),
      (''cooldown:'', max (max COOLDOWN_online COOLDOWN_offline) COOLDOWN_flag)]"

definition startsWith :: "string \<Rightarrow> string \<Rightarrow> bool" where
  "startsWith s p = (take (length p) s = p)"

definition endsWith :: "string \<Rightarrow> string \<Rightarrow> bool" where
  "endsWith s p = (length p \<le> length s \<and> drop (length s - length p) s = p)"

text \<open>The TTL of the first prefix of \<open>ttlMap\<close> the key starts with, 24 h without one.\<close>

definition maxAgeFor :: "string \<Rightarrow> int" where
  "maxAgeFor key =
     (case find (\<lambda>(p, ttl). startsWith key p) ttlMap of
        Some (p, ttl) \<Rightarrow> ttl
      | None \<Rightarrow> TTL_RATING_24H)"

text \<open>\<^verbatim>\<open>Number(x)\<close> where a JSON value meets arithmetic; \<open>None\<close> is \<^verbatim>\<open>NaN\<close>.\<close>

definition toNum :: "json \<Rightarrow> int option" where
  "toNum j =
     (case j of
        JNum n \<Rightarrow> Some n
      | JNull \<Rightarrow> Some 0
      | JBool b \<Rightarrow> Some (if b then 1 else 0)
      | _ \<Rightarrow> (case jsNumber (jsString j) of Num n \<Rightarrow> Some (int n) | NaN \<Rightarrow> None))"

text \<open>The body of the sweep loop for one key: is the key pushed on \<^verbatim>\<open>keysToDelete\<close>?\<close>

definition expiresAtPassed :: "int \<Rightarrow> json \<Rightarrow> bool" where
  "expiresAtPassed t entry =
     (case getProp entry ''expiresAt'' of Some (JNum x) \<Rightarrow> x < t | _ \<Rightarrow> False)"

definition sweeps :: "int \<Rightarrow> store \<Rightarrow> string \<Rightarrow> bool" where
  "sweeps t st key =
     (if key = STORE_CLEANUP_KEY then False
      else
        (case map_of st key of
           None \<Rightarrow> False
         | Some entry \<Rightarrow>
             if truthy entry \<and> isObjectType entry then
               (case getProp entry ''cached_at'' of
                  Some (JNum c) \<Rightarrow>
                    if t - c > maxAgeFor key * 2 then True else expiresAtPassed t entry
                | _ \<Rightarrow> expiresAtPassed t entry)
             else False))"

definition maybeCleanupStore :: "env \<Rightarrow> unit M" where
  "maybeCleanupStore e =
     bindM (storeLoad e) (\<lambda>u w.
       let lastCleanup = storeGet STORE_CLEANUP_KEY (JNum 0) w;
           t = ts w
       in
         if (case toNum lastCleanup of None \<Rightarrow> False | Some l \<Rightarrow> t - l < STORE_CLEANUP_INTERVAL)
         then (Inr (), w)
         else
           let keysToDelete = filter (sweeps t (doc w)) (map fst (doc w)) in
           (Inr (), storeSet STORE_CLEANUP_KEY (JNum t) (fold storeDel keysToDelete w)))"

section \<open>The REST API\<close>

record api_response =
  ar_status :: nat
  ar_body :: json
  ar_origin :: string

definition jsonResponse :: "json \<Rightarrow> nat \<Rightarrow> env \<Rightarrow> api_response" where
  "jsonResponse payload st e =
     \<lparr>ar_status = st, ar_body = payload,
      ar_origin = strOr (ALLOWED_ORIGIN e) ''https://realleviticus.github.io''\<rparr>"

text \<open>
  A request: path, method, and the JSON of its body (\<open>None\<close> when the body does not
  parse, which \<^verbatim>\<open>request.json().catch(() => ({}))\<close> turns into \<^verbatim>\<open>{}\<close>).
\<close>

record api_request =
  rq_path :: string
  rq_method :: string
  rq_json :: "json option"

definition KV_WATCHLIST :: string where "KV_WATCHLIST = ''watchlist''"
definition KV_STATE :: string where "KV_STATE = ''online_state''"
definition KV_JOB :: string where "KV_JOB = ''audit:job''"
definition KV_PARTIAL :: "string \<Rightarrow> string" where "KV_PARTIAL scope = ''audit:partial:'' @ scope"
definition KV_Q_AUTO :: "string \<Rightarrow> string" where "KV_Q_AUTO key = ''quarter:auto:'' @ key"
definition KV_member :: "string \<Rightarrow> string" where "KV_member cid = ''member:'' @ cid"

definition isValidMember :: "env \<Rightarrow> string \<Rightarrow> bool M" where
  "isValidMember e cid =
     bindM (cacheGet e (KV_member cid) (Some TTL_MEMBER_7D)) (\<lambda>c.
       case (if truthy c then getProp c ''ok'' else None) of
         Some (JBool b) \<Rightarrow> returnM b
       | _ \<Rightarrow>
           (\<lambda>w.
              case trackedFetch (''https://api.vatsim.net/v2/members/'' @ cid) w of
                (r, w') \<Rightarrow>
                  let ok = (case r of None \<Rightarrow> False | Some res \<Rightarrow> rs_status res = 200) in
                  bindM (cachePut e (KV_member cid) [(''ok'', JBool ok)]) (\<lambda>u. returnM ok) w'))"

text \<open>
  \<^verbatim>\<open>(list || []).map(String)\<close>: only an array has \<^verbatim>\<open>map\<close>. The error names
  the expression, so the variable's name is an argument.
\<close>

definition mapString :: "string \<Rightarrow> json \<Rightarrow> exn + string list" where
  "mapString name list =
     (if \<not> truthy list then Inr []
      else case list of
             JArr xs \<Rightarrow> Inr (map jsString xs)
           | _ \<Rightarrow> Inl (TypeError (''('' @ name @ '' || []).map is not a function'')))"

text \<open>The elements of \<^verbatim>\<open>new Set(xs)\<close> in insertion order.\<close>

fun setOf :: "string list \<Rightarrow> string list" where
  "setOf [] = []"
| "setOf (x # xs) = x # filter (\<lambda>y. y \<noteq> x) (setOf xs)"

text \<open>
  \<^verbatim>\<open>sort((a,b)=>a-b)\<close>, as an insertion sort by the comparator (a \<^verbatim>\<open>NaN\<close> difference
  counts as equal). On numbers the result is the ascending order whichever algorithm
  the engine runs; with a \<^verbatim>\<open>NaN\<close> in the array the engine is free in the order.
\<close>

fun cmpLe :: "jsnum \<Rightarrow> jsnum \<Rightarrow> bool" where
  "cmpLe (Num a) (Num b) = (a \<le> b)"
| "cmpLe _ _ = True"

fun insertNum :: "jsnum \<Rightarrow> jsnum list \<Rightarrow> jsnum list" where
  "insertNum x [] = [x]"
| "insertNum x (y # ys) = (if cmpLe x y then x # y # ys else y # insertNum x ys)"

definition sortNums :: "jsnum list \<Rightarrow> jsnum list" where
  "sortNums xs = foldr insertNum xs []"

definition addToWatchlist :: "api_request \<Rightarrow> env \<Rightarrow> api_response M" where
  "addToWatchlist req e =
     (case (case rq_json req of None \<Rightarrow> JObj [] | Some b \<Rightarrow> b) of
        JNull \<Rightarrow> throwM (TypeError ''Cannot read properties of null (reading 'cid')'')
      | reqBody \<Rightarrow>
          (case canonicalCID (getProp reqBody ''cid'') of
             Inl err \<Rightarrow> throwM err
           | Inr cidN \<Rightarrow>
               if cidN = None \<or> cidN = Some []
               then returnM (jsonResponse (JObj [(''error'', JStr ''Invalid CID format'')]) 400 e)
               else
                 let cid = the cidN in
                 bindM (isValidMember e cid) (\<lambda>isValid.
                   if \<not> isValid
                   then returnM (jsonResponse
                                   (JObj [(''error'', JStr ''CID does not exist on VATSIM'')]) 404 e)
                   else
                     bindM (kvGetJSON e KV_WATCHLIST (JArr [])) (\<lambda>list.
                       case mapString ''list'' list of
                         Inl err \<Rightarrow> throwM err
                       | Inr strs \<Rightarrow>
                           let listSet = setOf strs in
                           if cid \<in> set listSet
                           then returnM (jsonResponse
                                           (JObj [(''error'', JStr ''Already on watchlist'')]) 409 e)
                           else
                             let next = map jsNumString
                                          (sortNums (map jsNumber (listSet @ [cid]))) in
                             bindM (kvPutJSON e KV_WATCHLIST (JArr (map JStr next))) (\<lambda>u.
                             bindM (storeFlush e ''api: watchlist add'') (\<lambda>u w.
                               (Inr (jsonResponse
                                       (JObj [(''success'', JBool True),
                                              (''user'',
                                               JObj [(''cid'', JStr cid),
                                                     (''name'', JStr (''Controller '' @ cid)),
                                                     (''addedAt'', JStr (isoString (now w)))])])
                                       200 e), w)))))))"

definition removeFromWatchlist :: "string \<Rightarrow> env \<Rightarrow> api_response M" where
  "removeFromWatchlist cid e =
     bindM (kvGetJSON e KV_WATCHLIST (JArr [])) (\<lambda>list.
       if \<not> truthy list
       then returnM (jsonResponse (JObj [(''error'', JStr ''CID not found on watchlist'')]) 404 e)
       else
         case list of
           JArr xs \<Rightarrow>
             let next = filter (\<lambda>x. jsString x \<noteq> cid) xs in
             if length next = length xs
             then returnM (jsonResponse
                             (JObj [(''error'', JStr ''CID not found on watchlist'')]) 404 e)
             else
               bindM (kvPutJSON e KV_WATCHLIST (JArr next)) (\<lambda>u.
               bindM (storeFlush e ''api: watchlist remove'') (\<lambda>u.
                 returnM (jsonResponse (JObj [(''success'', JBool True)]) 200 e)))
         | _ \<Rightarrow> throwM (TypeError ''(list || []).filter is not a function''))"

text \<open>
  The read-only endpoints (\<^verbatim>\<open>getWatchlist\<close>, \<^verbatim>\<open>getAudit\<close>, \<^verbatim>\<open>getPresence\<close>,
  \<^verbatim>\<open>getStats\<close>) render the document and the live feed; the router takes them as given.
\<close>

record handlers =
  h_getWatchlist :: "env \<Rightarrow> api_response M"
  h_getAudit :: "env \<Rightarrow> string \<Rightarrow> api_response M"
  h_getPresence :: "env \<Rightarrow> api_response M"
  h_getStats :: "env \<Rightarrow> api_response M"

text \<open>\<^verbatim>\<open>path.match(/^\/api\/watchlist\/\d+$/)\<close> and \<^verbatim>\<open>path.split('/').pop()\<close>.\<close>

definition matchesWatchlistCid :: "string \<Rightarrow> bool" where
  "matchesWatchlistCid path =
     (startsWith path ''/api/watchlist/'' \<and>
      drop (length ''/api/watchlist/'') path \<noteq> [] \<and>
      list_all is_digit (drop (length ''/api/watchlist/'') path))"

definition lastSegment :: "string \<Rightarrow> string" where
  "lastSegment path = rev (takeWhile (\<lambda>c. c \<noteq> CHR ''/'') (rev path))"

text \<open>The body of the \<^verbatim>\<open>try\<close> block of \<^verbatim>\<open>handleAPI\<close>.\<close>

definition route :: "handlers \<Rightarrow> api_request \<Rightarrow> env \<Rightarrow> api_response M" where
  "route hs req e =
     (let path = rq_path req; method = rq_method req in
      if path = ''/api/watchlist'' \<and> method = ''GET'' then h_getWatchlist hs e
      else if path = ''/api/watchlist'' \<and> method = ''POST'' then addToWatchlist req e
      else if matchesWatchlistCid path \<and> method = ''DELETE''
        then removeFromWatchlist (lastSegment path) e
      else if path = ''/api/audit/visiting'' \<and> method = ''GET'' then h_getAudit hs e ''visiting''
      else if path = ''/api/audit/local'' \<and> method = ''GET'' then h_getAudit hs e ''local''
      else if path = ''/api/presence'' \<and> method = ''GET'' then h_getPresence hs e
      else if path = ''/api/stats'' \<and> method = ''GET'' then h_getStats hs e
      else returnM (jsonResponse (JObj [(''error'', JStr ''Not Found'')]) 404 e))"

text \<open>The \<^verbatim>\<open>catch\<close>: \<^verbatim>\<open>{ error: error.message || 'Internal Server Error' }\<close>, status 500.\<close>

definition handleAPI :: "handlers \<Rightarrow> api_request \<Rightarrow> env \<Rightarrow> world \<Rightarrow> api_response \<times> world" where
  "handleAPI hs req e w =
     (case route hs req e w of
        (Inr resp, w') \<Rightarrow> (resp, w')
      | (Inl err, w') \<Rightarrow>
          (jsonResponse
             (JObj [(''error'',
                     JStr (if message err = [] then ''Internal Server Error'' else message err))])
             500 e, w'))"

section \<open>Presence\<close>

definition VATSIM_DATA_URL :: string where
  "VATSIM_DATA_URL = ''https://data.vatsim.net/v3/vatsim-data.json''"

definition isSpace :: "char \<Rightarrow> bool" where
  "isSpace c = (c \<in> set [CHR '' '', CHR 0x09, CHR 0x0A, CHR 0x0B, CHR 0x0C, CHR 0x0D])"

definition trim :: "string \<Rightarrow> string" where
  "trim s = rev (dropWhile isSpace (rev (dropWhile isSpace s)))"

text \<open>
  One round of the loop of \<^verbatim>\<open>getOnlineMap\<close> over \<^verbatim>\<open>data.controllers\<close>;
  \<^verbatim>\<open>c?.cid?.toString?.()\<close> is undefined for a missing or null cid.
\<close>

definition onlineEntry :: "int \<Rightarrow> controller \<Rightarrow> (string \<times> json) list \<Rightarrow> (string \<times> json) list" where
  "onlineEntry t c m =
     (let cid = (case c_cid c of None \<Rightarrow> [] | Some JNull \<Rightarrow> [] | Some j \<Rightarrow> jsString j);
          callsign = trim (strOr (c_callsign c) [])
      in
        if cid = [] \<or> endsWith callsign ''_ATIS'' then m
        else AList.update cid
               (JObj [(''callsign'', JStr callsign),
                      (''frequency'', (case orNull (c_frequency c) of None \<Rightarrow> JNull | Some f \<Rightarrow> JStr f)),
                      (''name'', (case orNull (c_name c) of None \<Rightarrow> JNull | Some n \<Rightarrow> JStr n)),
                      (''last_seen'', JNum t)]) m)"

definition getOnlineMap :: "world \<Rightarrow> (string \<times> json) list \<times> world" where
  "getOnlineMap w =
     (case trackedFetch VATSIM_DATA_URL w of
        (None, w') \<Rightarrow> ([], w')
      | (Some r, w') \<Rightarrow>
          if \<not> rs_ok r then ([], w')
          else
            (case rs_body r of
               Feed cs \<Rightarrow> (fold (onlineEntry (ts w')) cs [], w')
             | _ \<Rightarrow> ([], w')))"

text \<open>\<^verbatim>\<open>Object.keys(x).length > 0\<close>.\<close>

fun hasKeys :: "json \<Rightarrow> bool" where
  "hasKeys (JObj kvs) = (kvs \<noteq> [])"
| "hasKeys (JArr xs) = (xs \<noteq> [])"
| "hasKeys (JStr s) = (s \<noteq> [])"
| "hasKeys _ = False"

text \<open>
  One round of the loop of \<^verbatim>\<open>runPresence\<close> for \<open>cid\<close>, on the fields of the
  \<^verbatim>\<open>state\<close> object and the \<^verbatim>\<open>changed\<close> flag.
\<close>

definition wasOnline :: "(string \<times> json) list \<Rightarrow> string \<Rightarrow> bool" where
  "wasOnline st cid = truthyU (getProp (orElse (map_of st cid) (JObj [])) ''online'')"

definition nowOnline :: "(string \<times> json) list \<Rightarrow> string \<Rightarrow> bool" where
  "nowOnline presence cid = hasKeys (orElse (map_of presence cid) (JObj []))"

definition presenceStep ::
  "int \<Rightarrow> (string \<times> json) list \<Rightarrow> string \<Rightarrow> (string \<times> json) list \<times> bool
     \<Rightarrow> (string \<times> json) list \<times> bool" where
  "presenceStep t presence cid acc =
     (case acc of (st, changed) \<Rightarrow>
        let prev = orElse (map_of st cid) (JObj []);
            prevInfo = orElse (getProp prev ''last_info'') (JObj []);
            nowInfo = orElse (map_of presence cid) (JObj [])
        in
          if nowOnline presence cid \<and> \<not> wasOnline st cid then
            (AList.update cid
               (JObj [(''online'', JBool True), (''last_change'', JNum t),
                      (''last_info'', nowInfo)]) st, True)
          else if \<not> nowOnline presence cid \<and> wasOnline st cid then
            (AList.update cid
               (JObj [(''online'', JBool False), (''last_change'', JNum t),
                      (''last_info'', prevInfo)]) st, True)
          else (st, changed))"

text \<open>
  The diff of \<^verbatim>\<open>runPresence\<close> once the state and the live feed are read. The stored
  state is an object. On null, a boolean, a number or a string no entry is found
  online, and the first transition fails on the assignment \<^verbatim>\<open>state[cidStr] = ...\<close>
  (the worker is a module, hence strict code). A stored array is outside this
  model: JavaScript would read its indices as keys and assign into the array; the
  worker never stores one under \<^verbatim>\<open>online_state\<close>, and the definition treats it like
  the other values that are not objects.
\<close>

definition presenceDiff :: "env \<Rightarrow> json \<Rightarrow> (string \<times> json) list \<Rightarrow> unit M" where
  "presenceDiff e state presence =
     (case state of
        JObj st \<Rightarrow>
          (\<lambda>w.
             case fold (presenceStep (ts w) presence)
                    (setOf (map fst st @ map fst presence)) (st, False) of
               (st', changed) \<Rightarrow>
                 if changed then kvPutJSON e KV_STATE (JObj st') w else (Inr (), w))
      | _ \<Rightarrow>
          if list_ex (nowOnline presence) (map fst presence)
          then throwM (TypeError ''Cannot set properties'')
          else returnM ())"

definition runPresence :: "env \<Rightarrow> unit M" where
  "runPresence e =
     bindM (kvGetJSON e KV_WATCHLIST (JArr [])) (\<lambda>watch.
       case mapString ''watch'' watch of
         Inl err \<Rightarrow> throwM err
       | Inr watchSet \<Rightarrow>
           bindM (kvGetJSON e KV_STATE (JObj [])) (\<lambda>state w.
             case getOnlineMap w of
               (presence, w') \<Rightarrow> presenceDiff e state presence w'))"

section \<open>The audit tick and the quarterly trigger\<close>

text \<open>\<^verbatim>\<open>tickAudit\<close> reads the job and returns: its body is a placeholder.\<close>

definition tickAudit :: "env \<Rightarrow> unit M" where
  "tickAudit e = bindM (kvGetJSON e KV_JOB JNull) (\<lambda>job. returnM ())"

definition quarterKeyForPrev :: "clock \<Rightarrow> string" where
  "quarterKeyForPrev dateUtc =
     (let m = utcMonth dateUtc;
          y = utcFullYear dateUtc;
          q = m div 3 + 1
      in if q - 1 < 1 then decInt (y - 1) @ ''Q'' @ dec 4
         else decInt y @ ''Q'' @ dec (q - 1))"

definition isQuarterStart :: "clock \<Rightarrow> bool" where
  "isQuarterStart c =
     ((utcMonth c = 0 \<or> utcMonth c = 3 \<or> utcMonth c = 6 \<or> utcMonth c = 9) \<and>
      utcDate c = 1 \<and> utcHours c = 0)"

definition maybeStartQuarterlyVisiting :: "env \<Rightarrow> unit M" where
  "maybeStartQuarterlyVisiting e = (\<lambda>w.
     if \<not> isQuarterStart (now w) then (Inr (), w)
     else
       let doneKey = KV_Q_AUTO (quarterKeyForPrev (now w)) in
       bindM (kvGetJSON e doneKey JNull) (\<lambda>done.
         if truthy done then returnM ()
         else (\<lambda>w'. kvPutJSON e doneKey
                       (JObj [(''done'', JBool True), (''at'', JNum (ts w'))]) w')) w)"

text \<open>
  Is \<^verbatim>\<open>x?.length\<close> truthy? An array and a string have their length, an object has
  the property only when it carries one of that name, anything else has none.
\<close>

definition lengthTruthy :: "json option \<Rightarrow> bool" where
  "lengthTruthy x =
     (case x of
        Some (JArr xs) \<Rightarrow> xs \<noteq> []
      | Some (JStr s) \<Rightarrow> s \<noteq> []
      | Some (JObj kvs) \<Rightarrow> truthyU (map_of kvs ''length'')
      | _ \<Rightarrow> False)"

text \<open>
  \<^verbatim>\<open>a < b\<close>: arrays and objects are first turned into their strings; two strings
  compare by their characters, left to right; any other pair compares as numbers,
  and a comparison with \<^verbatim>\<open>undefined\<close> or \<^verbatim>\<open>NaN\<close> is false.
\<close>

fun strLess :: "string \<Rightarrow> string \<Rightarrow> bool" where
  "strLess [] [] = False"
| "strLess [] (y # ys) = True"
| "strLess (x # xs) [] = False"
| "strLess (x # xs) (y # ys) =
     ((of_char x :: nat) < of_char y \<or> (x = y \<and> strLess xs ys))"

definition toPrimitive :: "json \<Rightarrow> json" where
  "toPrimitive j = (if truthy j \<and> isObjectType j then JStr (jsString j) else j)"

definition jsLess :: "json option \<Rightarrow> json option \<Rightarrow> bool" where
  "jsLess a b =
     (case (a, b) of
        (Some x, Some y) \<Rightarrow>
          (case (toPrimitive x, toPrimitive y) of
             (JStr s, JStr t) \<Rightarrow> strLess s t
           | (p, q) \<Rightarrow> (case (toNum p, toNum q) of (Some m, Some n) \<Rightarrow> m < n | _ \<Rightarrow> False))
      | _ \<Rightarrow> False)"

text \<open>
  \<^verbatim>\<open>activeJob && activeJob.cids?.length && activeJob.cursor < activeJob.total\<close>.
\<close>

definition jobActive :: "json \<Rightarrow> bool" where
  "jobActive job =
     (truthy job \<and> lengthTruthy (getProp job ''cids'') \<and>
      jsLess (getProp job ''cursor'') (getProp job ''total''))"

text \<open>
  \<^verbatim>\<open>handleScheduled\<close>, entered from \<^verbatim>\<open>scheduled\<close> after \<^verbatim>\<open>resetBudgets()\<close>. \<open>inTime\<close>
  says whether less than 20 s have passed when presence is due. The \<^verbatim>\<open>finally\<close>
  flushes and swallows a failure of the flush; the outcome of the \<^verbatim>\<open>try\<close> block stays.
\<close>

definition scheduledBody :: "bool \<Rightarrow> env \<Rightarrow> unit M" where
  "scheduledBody inTime e =
     bindM (maybeCleanupStore e) (\<lambda>u.
     bindM (tickAudit e) (\<lambda>u.
     bindM (kvGetJSON e KV_JOB JNull) (\<lambda>activeJob.
     bindM (if \<not> jobActive activeJob \<and> inTime then runPresence e else returnM ()) (\<lambda>u.
     maybeStartQuarterlyVisiting e))))"

definition handleScheduled :: "bool \<Rightarrow> env \<Rightarrow> unit M" where
  "handleScheduled inTime e = (\<lambda>w.
     case scheduledBody inTime e (resetBudgets w) of
       (res, w') \<Rightarrow> (res, snd (storeFlush e ''bot: scheduled flush'' w')))"

section \<open>Canonical CIDs\<close>

text \<open>
  The decimal representation of a natural number: digits only, not empty, no leading
  zero except for \<open>''0''\<close> itself.
\<close>

definition canonicalDigits :: "string \<Rightarrow> bool" where
  "canonicalDigits s = (s \<noteq> [] \<and> list_all is_digit s \<and> (s = ''0'' \<or> hd s \<noteq> CHR ''0''))"

text \<open>
  The watchlist a document holds, when it is an array of strings (or absent, which
  every reader takes as the empty list), and the invariant of the watchlist: no
  duplicates, ascending by value, every element the decimal representation of a
  number below \<open>10 ^ 10\<close>.
\<close>

definition isJStr :: "json \<Rightarrow> bool" where
  "isJStr j = (case j of JStr s \<Rightarrow> True | _ \<Rightarrow> False)"

definition watchlistOf :: "store \<Rightarrow> string list option" where
  "watchlistOf st =
     (case map_of st KV_WATCHLIST of
        None \<Rightarrow> Some []
      | Some (JArr xs) \<Rightarrow> if list_all isJStr xs then Some (map jsString xs) else None
      | Some _ \<Rightarrow> None)"

definition watchlistInvariant :: "string list \<Rightarrow> bool" where
  "watchlistInvariant xs =
     (distinct xs \<and> sorted_wrt (<) (map str_val xs) \<and>
      list_all (\<lambda>s. canonicalDigits s \<and> length s \<le> 10) xs)"

section \<open>The entry of a presence transition\<close>

text \<open>
  What a transition of \<open>cid\<close> at time \<open>t\<close> leaves in the state, read off the state
  and the feed before it: going online records the feed's info, going offline keeps
  the \<^verbatim>\<open>last_info\<close> the state had (\<^verbatim>\<open>{}\<close> without one).
\<close>

definition transitionEntry ::
  "int \<Rightarrow> (string \<times> json) list \<Rightarrow> (string \<times> json) list \<Rightarrow> string \<Rightarrow> json" where
  "transitionEntry t presence st cid =
     (if nowOnline presence cid
      then JObj [(''online'', JBool True), (''last_change'', JNum t),
                 (''last_info'', orElse (map_of presence cid) (JObj []))]
      else JObj [(''online'', JBool False), (''last_change'', JNum t),
                 (''last_info'',
                  orElse (getProp (orElse (map_of st cid) (JObj [])) ''last_info'') (JObj []))])"

section \<open>The shapes of the long-lived keys\<close>

text \<open>
  Modelled from the spec: the types of the values under the long-lived keys. The
  worker declares none, and no code of \<^verbatim>\<open>worker.js\<close> writes \<^verbatim>\<open>audit:job\<close> or
  \<^verbatim>\<open>audit:partial:<scope>\<close> (the audit engine is a placeholder there). The spec's data
  model gives them: \<^verbatim>\<open>watchlist\<close> and \<^verbatim>\<open>audit:partial:<scope>\<close> hold arrays,
  \<^verbatim>\<open>online_state\<close> maps each CID to a state record (an object), and \<^verbatim>\<open>audit:job\<close> is
  a record of \<^verbatim>\<open>scope\<close>, \<^verbatim>\<open>cids\<close>, \<^verbatim>\<open>cursor\<close>, \<^verbatim>\<open>total\<close> and \<^verbatim>\<open>created_at\<close>.
\<close>

definition isArray :: "json \<Rightarrow> bool" where
  "isArray v = (case v of JArr xs \<Rightarrow> True | _ \<Rightarrow> False)"

definition isRecord :: "json \<Rightarrow> bool" where
  "isRecord v = (case v of JObj fs \<Rightarrow> True | _ \<Rightarrow> False)"

definition isStateMap :: "json \<Rightarrow> bool" where
  "isStateMap v = (case v of JObj fs \<Rightarrow> list_all (\<lambda>kv. isRecord (snd kv)) fs | _ \<Rightarrow> False)"

definition isJob :: "json \<Rightarrow> bool" where
  "isJob v =
     (case v of
        JObj fs \<Rightarrow>
          list_all (\<lambda>kv. fst kv \<in> set [''scope'', ''cids'', ''cursor'', ''total'', ''created_at'']) fs
      | _ \<Rightarrow> False)"

definition longLived :: "string \<Rightarrow> json \<Rightarrow> bool" where
  "longLived k v =
     (if k = KV_WATCHLIST then isArray v
      else if startsWith k (KV_PARTIAL []) then isArray v
      else if k = KV_STATE then isStateMap v
      else if k = KV_JOB then isJob v
      else False)"

section \<open>Concrete environments, worlds and requests\<close>

definition env0 :: env where
  "env0 = \<lparr>GITHUB_DIR = None, GITHUB_REPO = ''vatpac/store'', GITHUB_BRANCH = None,
           GITHUB_TOKEN = ''secret'', ALLOWED_ORIGIN = None\<rparr>"

text \<open>2025-04-01T00:00:00Z, a quarter start.\<close>

definition clock0 :: clock where
  "clock0 = \<lparr>epoch = 1743465600, utcFullYear = 2025, utcMonth = 3, utcDate = 1, utcHours = 0,
             isoString = ''2025-04-01T00:00:00.000Z''\<rparr>"

text \<open>A worker that has loaded the document \<open>st\<close>, and one that has not loaded yet.\<close>

definition loaded :: "store \<Rightarrow> outcome list \<Rightarrow> world" where
  "loaded st outs = \<lparr>GH_STORE = Some st, GH_STORE_SHA = Some ''sha0'',
     GH_STORE_DIRTY = False, subreqCount = 0, net = outs, sent = [], now = clock0\<rparr>"

definition fresh :: "outcome list \<Rightarrow> world" where
  "fresh outs = \<lparr>GH_STORE = None, GH_STORE_SHA = None,
     GH_STORE_DIRTY = False, subreqCount = 0, net = outs, sent = [], now = clock0\<rparr>"

definition okResp :: "body \<Rightarrow> outcome" where
  "okResp b = Resp \<lparr>rs_status = 200, rs_text = [], rs_body = b\<rparr>"

definition failResp :: "nat \<Rightarrow> string \<Rightarrow> outcome" where
  "failResp st txt = Resp \<lparr>rs_status = st, rs_text = txt, rs_body = NoBody\<rparr>"

definition feed0 :: body where
  "feed0 = Feed [\<lparr>c_cid = Some (JNum 1234567), c_callsign = Some ''ML-APP_CTR'',
                   c_frequency = Some ''132.200'', c_name = None\<rparr>]"

text \<open>The tick at the quarter start: one watched controller, no marker, no job.\<close>

definition worldQ :: world where
  "worldQ = loaded [(''watchlist'', JArr [JStr ''1234567''])]
                   [okResp feed0, okResp (GhCommit (Some ''sha1''))]"

text \<open>The budget is used up; the network would still answer.\<close>

definition worldFull :: world where
  "worldFull = (loaded [(''watchlist'', JArr [JStr ''1234567''])] [okResp NoBody])
                 \<lparr>subreqCount := 120\<rparr>"

definition worldFalsy :: world where
  "worldFalsy = loaded [(''config'', JNum 0),
                        (''rating:1234567'', JObj [(''label'', JStr ''C1'')])] []"

text \<open>
  A dirty store whose first PUT meets 409: the remote document has another watchlist
  and a key the local one lacks; the PUT after the merge succeeds.
\<close>

definition worldConflict :: world where
  "worldConflict =
     (loaded [(''watchlist'', JArr [JStr ''1234567''])]
        [failResp 409 ''conflict'',
         okResp (GhFile (Some ''sha9'')
                   (ContentDoc [(''watchlist'', JArr [JStr ''7654321'']),
                                (''online_state'', JObj [])])),
         okResp (GhCommit (Some ''sha10''))])
     \<lparr>GH_STORE_DIRTY := True\<rparr>"

text \<open>The same conflict, but the PUT after the merge meets 409 again.\<close>

definition worldConflictTwice :: world where
  "worldConflictTwice =
     (loaded [(''watchlist'', JArr [JStr ''1234567''])]
        [failResp 409 ''conflict'',
         okResp (GhFile (Some ''sha9'')
                   (ContentDoc [(''watchlist'', JArr [JStr ''7654321'']),
                                (''online_state'', JObj [])])),
         failResp 409 ''conflict again''])
     \<lparr>GH_STORE_DIRTY := True\<rparr>"

text \<open>
  An empty document; the member lookup and the PUT both answer 200. And a document
  with one watched controller, for a second insert.
\<close>

definition worldEmpty :: world where
  "worldEmpty = loaded [] [okResp NoBody, okResp (GhCommit (Some ''sha1''))]"

definition worldOne :: world where
  "worldOne = loaded [(''watchlist'', JArr [JStr ''1234567''])]
                     [okResp NoBody, okResp (GhCommit (Some ''sha1''))]"

definition deleteCid :: "string \<Rightarrow> api_request" where
  "deleteCid c = \<lparr>rq_path = ''/api/watchlist/'' @ c, rq_method = ''DELETE'', rq_json = None\<rparr>"

text \<open>
  A document due for a sweep: the last one ran a day before, the job and the partial
  results are a year old, one rating entry is three days old, one member entry is
  three days old, one cooldown has run out.
\<close>

definition worldSweep :: world where
  "worldSweep =
     loaded [(''watchlist'', JArr [JStr ''1234567'']),
             (''online_state'',
              JObj [(''1234567'', JObj [(''online'', JBool False), (''last_change'', JNum 1700000000),
                                        (''last_info'', JObj [])])]),
             (''audit:job'',
              JObj [(''scope'', JStr ''visiting''), (''cids'', JArr [JStr ''1234567'']),
                    (''cursor'', JNum 0), (''total'', JNum 1), (''created_at'', JNum 1711929600)]),
             (''audit:partial:visiting'', JArr []),
             (''_last_cleanup'', JNum 1743379200),
             (''rating:1234567'', JObj [(''label'', JStr ''C1''), (''cached_at'', JNum 1743206400)]),
             (''member:1234567'', JObj [(''ok'', JBool True), (''cached_at'', JNum 1743206400)]),
             (''cooldown:flag:1234567'', JObj [(''expiresAt'', JNum 1743465599)])] []"

text \<open>
  Two consecutive presence ticks with the same controller in the feed: before the
  first, 7654321 is recorded online and 1234567 is unknown; the second runs five
  minutes later on the document the first one left.
\<close>

definition worldPresence :: world where
  "worldPresence =
     loaded [(''watchlist'', JArr [JStr ''1234567'', JStr ''7654321'']),
             (''online_state'',
              JObj [(''7654321'',
                     JObj [(''online'', JBool True), (''last_change'', JNum 1743460000),
                           (''last_info'', JObj [(''callsign'', JStr ''SY_TWR'')])])])]
            [okResp feed0]"

definition worldPresence2 :: world where
  "worldPresence2 =
     (snd (runPresence env0 worldPresence))
       \<lparr>net := [okResp feed0], now := clock0\<lparr>epoch := 1743465900\<rparr>\<rparr>"

text \<open>GitHub answers 500 to every attempt.\<close>

definition worldDown :: world where
  "worldDown = fresh [failResp 500 ''Server Error'', failResp 500 ''Server Error'',
                      failResp 500 ''Server Error'']"

definition handlersDown :: handlers where
  "handlersDown = \<lparr>h_getWatchlist = (\<lambda>e. throwM (Error ''feed unavailable'')),
     h_getAudit = (\<lambda>e scope. throwM (Error ''feed unavailable'')),
     h_getPresence = (\<lambda>e. throwM (Error ''feed unavailable'')),
     h_getStats = (\<lambda>e. throwM (Error ''feed unavailable''))\<rparr>"

definition postCid :: "json \<Rightarrow> api_request" where
  "postCid c = \<lparr>rq_path = ''/api/watchlist'', rq_method = ''POST'',
                rq_json = Some (JObj [(''cid'', c)])\<rparr>"

section \<open>Evaluation rules\<close>

lemma ghFetchLoop_numeral:
  "ghFetchLoop (numeral k) rq w =
     (case fetch rq w of
        (NetFail, w') \<Rightarrow>
          if pred_numeral k = 0 then (None, w') else ghFetchLoop (pred_numeral k) rq w'
      | (Resp res, w') \<Rightarrow>
          if retryable (rs_status res) \<and> pred_numeral k \<noteq> 0
          then ghFetchLoop (pred_numeral k) rq w'
          else (Some res, w'))"
  by (simp add: numeral_eq_Suc)

lemmas world_defs = env0_def clock0_def loaded_def fresh_def okResp_def failResp_def feed0_def

lemmas store_defs = bindM_def returnM_def throwM_def kvGetJSON_def kvPutJSON_def kvDelete_def
  storeLoad_def storeGet_def storeSet_def storeDel_def doc_def ts_def

lemmas net_defs = ghFetchLoop_numeral ghGet_def ghPut_def putRequest_def ghFetch_def fetch_def trackedFetch_def
  SUBREQ_BUDGET_PER_TICK_def retryable_def rs_ok_def strOr_def orNull_def storePath_def

lemmas key_defs = KV_WATCHLIST_def KV_STATE_def KV_JOB_def KV_PARTIAL_def KV_Q_AUTO_def
  KV_member_def STORE_CLEANUP_KEY_def

lemmas num_defs = dec.simps decInt_def digit_char_def digit_val_def str_val_def is_digit_def
  jsNumber_def

lemmas api_defs = Let_def handleAPI_def route_def addToWatchlist_def removeFromWatchlist_def
  jsonResponse_def matchesWatchlistCid_def lastSegment_def startsWith_def isValidMember_def
  cacheGet_def cachePut_def mapString_def canonicalCID_def orElse_def sortNums_def
  storeFlush_def shallowMerge_def putFailed_def TTL_MEMBER_7D_def

lemmas tick_defs = Let_def handleScheduled_def scheduledBody_def maybeCleanupStore_def
  tickAudit_def runPresence_def presenceDiff_def presenceStep_def wasOnline_def nowOnline_def
  getOnlineMap_def onlineEntry_def maybeStartQuarterlyVisiting_def isQuarterStart_def
  quarterKeyForPrev_def jobActive_def resetBudgets_def toNum_def sweeps_def expiresAtPassed_def
  maxAgeFor_def ttlMap_def STORE_CLEANUP_INTERVAL_def storeFlush_def shallowMerge_def
  putFailed_def mapString_def orElse_def trim_def isSpace_def endsWith_def startsWith_def
  VATSIM_DATA_URL_def

section \<open>Digit strings\<close>

lemma below_ten:
  "(m::nat) < 10 \<Longrightarrow> m = 0 \<or> m = 1 \<or> m = 2 \<or> m = 3 \<or> m = 4 \<or> m = 5 \<or> m = 6 \<or> m = 7 \<or> m = 8 \<or> m = 9"
  by arith

lemma digit_val_lt: "digit_val c < 10"
  by (auto simp add: digit_val_def is_digit_def)

lemma digit_char_is_digit: "is_digit (digit_char n)"
proof -
  have "n mod 10 < 10" by simp
  from below_ten [OF this] show ?thesis
    unfolding digit_char_def is_digit_def by (elim disjE) simp_all
qed

lemma digit_val_digit_char: "n < 10 \<Longrightarrow> digit_val (digit_char n) = n"
proof -
  assume "n < 10"
  from below_ten [OF this] show ?thesis
    unfolding digit_char_def digit_val_def is_digit_def by (elim disjE) simp_all
qed

lemma digit_char_digit_val: "is_digit c \<Longrightarrow> digit_char (digit_val c) = c"
  by (auto simp add: digit_char_def digit_val_def is_digit_def)

lemma digit_val_zero: "is_digit c \<Longrightarrow> digit_val c = 0 \<Longrightarrow> c = CHR ''0''"
  by (auto simp add: digit_val_def is_digit_def split: if_splits)

lemma str_val_snoc: "str_val (s @ [c]) = 10 * str_val s + digit_val c"
  by (simp add: str_val_def)

lemma dec_nonempty: "dec n \<noteq> []"
  by (subst dec.simps) simp

lemma dec_digits: "list_all is_digit (dec n)"
proof (induction n rule: dec.induct)
  case (1 n)
  show ?case
  proof (cases "n < 10")
    case True
    then show ?thesis by (subst dec.simps) (simp add: digit_char_is_digit)
  next
    case False
    with 1 show ?thesis by (subst dec.simps) (simp add: digit_char_is_digit)
  qed
qed

lemma str_val_dec: "str_val (dec n) = n"
proof (induction n rule: dec.induct)
  case (1 n)
  show ?case
  proof (cases "n < 10")
    case True
    then show ?thesis
      by (subst dec.simps) (simp add: str_val_def digit_val_digit_char)
  next
    case False
    with 1 have "str_val (dec (n div 10)) = n div 10" by simp
    with False show ?thesis
      by (subst dec.simps) (simp add: str_val_snoc digit_val_digit_char)
  qed
qed

lemma str_val_pos:
  "list_all is_digit s \<Longrightarrow> s \<noteq> [] \<Longrightarrow> hd s \<noteq> CHR ''0'' \<Longrightarrow> 0 < str_val s"
proof (induction s rule: rev_induct)
  case Nil
  then show ?case by simp
next
  case (snoc c s)
  show ?case
  proof (cases "s = []")
    case True
    with snoc.prems have "is_digit c" "c \<noteq> CHR ''0''" by simp_all
    then have "digit_val c \<noteq> 0" using digit_val_zero by blast
    with True show ?thesis by (simp add: str_val_def)
  next
    case False
    with snoc have "0 < str_val s" by simp
    then show ?thesis by (simp add: str_val_snoc)
  qed
qed

lemma dec_canonical: "canonicalDigits (dec n)"
proof -
  have "dec n = ''0'' \<or> hd (dec n) \<noteq> CHR ''0''"
  proof (induction n rule: dec.induct)
    case (1 n)
    show ?case
    proof (cases "n < 10")
      case True
      from below_ten [OF this] show ?thesis
        by (subst dec.simps, subst (2) dec.simps) (elim disjE, simp_all add: digit_char_def)
    next
      case False
      from False 1 have ih: "dec (n div 10) = ''0'' \<or> hd (dec (n div 10)) \<noteq> CHR ''0''" by simp
      have "dec (n div 10) \<noteq> ''0''"
      proof
        assume "dec (n div 10) = ''0''"
        then have "str_val (dec (n div 10)) = 0" by (simp add: str_val_def digit_val_def is_digit_def)
        then have "n div 10 = 0" by (simp add: str_val_dec)
        with False show False by simp
      qed
      with ih have "hd (dec (n div 10)) \<noteq> CHR ''0''" by simp
      with False show ?thesis
        by (subst dec.simps, subst (2) dec.simps) (simp add: dec_nonempty)
    qed
  qed
  then show ?thesis by (simp add: canonicalDigits_def dec_nonempty dec_digits)
qed

lemma dec_str_val: "canonicalDigits s \<Longrightarrow> dec (str_val s) = s"
proof (induction s rule: rev_induct)
  case Nil
  then show ?case by (simp add: canonicalDigits_def)
next
  case (snoc c s)
  from snoc.prems have dc: "is_digit c" by (simp add: canonicalDigits_def)
  show ?case
  proof (cases "s = []")
    case True
    have "digit_val c < 10" by (rule digit_val_lt)
    with True dc show ?thesis
      by (subst dec.simps) (simp add: str_val_def digit_char_digit_val)
  next
    case False
    with snoc.prems have hd0: "hd s \<noteq> CHR ''0''" and ds: "list_all is_digit s"
      by (auto simp add: canonicalDigits_def)
    with False have cs: "canonicalDigits s" by (simp add: canonicalDigits_def)
    from ds False hd0 have pos: "0 < str_val s" by (rule str_val_pos)
    have lt: "digit_val c < 10" by (rule digit_val_lt)
    from pos lt have ge: "\<not> 10 * str_val s + digit_val c < 10" by simp
    from lt have dv: "(10 * str_val s + digit_val c) div 10 = str_val s"
      and md: "(10 * str_val s + digit_val c) mod 10 = digit_val c" by simp_all
    show ?thesis
      using ge snoc.IH [OF cs] dc lt
      by (subst dec.simps) (simp add: str_val_snoc dv md digit_char_digit_val)
  qed
qed

lemma str_val_bound: "list_all is_digit s \<Longrightarrow> str_val s < 10 ^ length s"
proof (induction s rule: rev_induct)
  case Nil
  then show ?case by (simp add: str_val_def)
next
  case (snoc c s)
  then have "str_val s < 10 ^ length s" by simp
  moreover have "digit_val c < 10" by (rule digit_val_lt)
  ultimately show ?case by (simp add: str_val_snoc)
qed

lemma dec_length: "n < 10 ^ k \<Longrightarrow> 0 < k \<Longrightarrow> length (dec n) \<le> k"
proof (induction n arbitrary: k rule: dec.induct)
  case (1 n)
  show ?case
  proof (cases "n < 10")
    case True
    with 1 show ?thesis by (subst dec.simps) simp
  next
    case False
    from 1(2,3) obtain k' where k: "k = Suc k'" by (cases k) auto
    with False 1(2) have "0 < k'" by (cases k') auto
    moreover from k 1(2) have "n div 10 < 10 ^ k'" by (simp add: less_mult_imp_div_less mult.commute)
    ultimately have "length (dec (n div 10)) \<le> k'" using 1(1) False by simp
    with False k show ?thesis by (subst dec.simps) simp
  qed
qed

section \<open>The quarterly trigger\<close>

text \<open>
  Claim C1. At a quarter start with no marker for the previous quarter the scheduled
  tick should build a visiting job from the watchlist, store it under \<^verbatim>\<open>audit:job\<close>,
  clear \<^verbatim>\<open>audit:partial:visiting\<close> and write the marker. The code writes the marker
  only: on the tick of 2025-04-01T00:00Z with one watched controller, no marker and
  no job, the document after the tick holds the marker \<^verbatim>\<open>quarter:auto:2025Q1\<close> and
  still no \<^verbatim>\<open>audit:job\<close>, and that document is what the tick's flush sends.
\<close>

theorem quarter_start_tick_enqueues_no_job:
  "isQuarterStart (now worldQ) \<and>
   map_of (doc worldQ) (KV_Q_AUTO (quarterKeyForPrev (now worldQ))) = None \<and>
   fst (handleScheduled True env0 worldQ) = Inr () \<and>
   map_of (doc (snd (handleScheduled True env0 worldQ))) (KV_Q_AUTO ''2025Q1'')
     = Some (JObj [(''done'', JBool True), (''at'', JNum 1743465600)]) \<and>
   map_of (doc (snd (handleScheduled True env0 worldQ))) KV_JOB = None \<and>
   map fst (doc (snd (handleScheduled True env0 worldQ)))
     = [''watchlist'', ''_last_cleanup'', ''online_state'', ''quarter:auto:2025Q1''] \<and>
   GH_STORE_DIRTY (snd (handleScheduled True env0 worldQ)) = False"
  by (simp add: tick_defs worldQ_def world_defs store_defs net_defs num_defs key_defs)

section \<open>The subrequest budget\<close>

text \<open>
  Claim C3, as amended. With \<^verbatim>\<open>subreqCount\<close> at \<^verbatim>\<open>SUBREQ_BUDGET_PER_TICK = 120\<close> or
  above no outbound call fetches: \<^verbatim>\<open>trackedFetch\<close> returns \<^verbatim>\<open>null\<close>, while \<^verbatim>\<open>ghGet\<close>
  and \<^verbatim>\<open>ghPut\<close> throw \<^verbatim>\<open>Error("subrequest budget")\<close>. In each case the world is left as
  it was: nothing is sent and the counter does not move.
\<close>

theorem budget_exhausted_refuses:
  assumes "SUBREQ_BUDGET_PER_TICK \<le> subreqCount w"
  shows "SUBREQ_BUDGET_PER_TICK = 120 \<and>
         trackedFetch url w = (None, w) \<and>
         ghGet e path w = (Inl (Error ''subrequest budget''), w) \<and>
         ghPut e path obj sha msg w = (Inl (Error ''subrequest budget''), w)"
  using assms by (simp add: trackedFetch_def ghGet_def ghPut_def SUBREQ_BUDGET_PER_TICK_def)

theorem budget_exhausted_refuses_witness:
  "subreqCount worldFull = 120 \<and>
   fst (trackedFetch VATSIM_DATA_URL worldFull) = None \<and>
   sent (snd (trackedFetch VATSIM_DATA_URL worldFull)) = [] \<and>
   ghGet env0 (storePath env0) worldFull = (Inl (Error ''subrequest budget''), worldFull)"
proof -
  have full: "SUBREQ_BUDGET_PER_TICK \<le> subreqCount worldFull"
    by (simp add: worldFull_def world_defs SUBREQ_BUDGET_PER_TICK_def)
  have "subreqCount worldFull = 120 \<and> sent worldFull = []"
    by (simp add: worldFull_def world_defs)
  with budget_exhausted_refuses [OF full, of VATSIM_DATA_URL env0 "storePath env0"]
  show ?thesis by simp
qed

text \<open>
  The claim as stated fails for the store calls: at the exhausted budget \<^verbatim>\<open>ghPut\<close>
  does not return \<^verbatim>\<open>null\<close>, it throws.
\<close>

theorem ghPut_throws_on_exhausted_budget:
  "ghPut env0 (storePath env0) (doc worldFull) (GH_STORE_SHA worldFull)
       ''bot: scheduled flush'' worldFull
     = (Inl (Error ''subrequest budget''), worldFull)"
  by (simp add: ghPut_def SUBREQ_BUDGET_PER_TICK_def worldFull_def world_defs)

section \<open>The API's error handler\<close>

text \<open>
  Claim C7, as amended. When the handler of a request throws, \<^verbatim>\<open>handleAPI\<close> answers
  500 with the exception's own message in the \<^verbatim>\<open>{error}\<close> envelope; the generic text
  \<^verbatim>\<open>Internal Server Error\<close> stands in only for an empty message.
\<close>

theorem handleAPI_reports_exception_message:
  assumes "route hs req e w = (Inl err, w')"
  shows "handleAPI hs req e w =
           (jsonResponse
              (JObj [(''error'', JStr (if message err = [] then ''Internal Server Error''
                                       else message err))]) 500 e, w')"
  using assms by (simp add: handleAPI_def)

lemma route_store_down:
  "route handlersDown (postCid (JStr ''1234567'')) env0 worldDown =
    (Inl (Error ''GitHub GET failed 500''),
     worldDown\<lparr>net := [], subreqCount := 1,
       sent := [GhGetReq ''vatpac/store'' ''cf-cache/store.json'' ''main'',
                GhGetReq ''vatpac/store'' ''cf-cache/store.json'' ''main'',
                GhGetReq ''vatpac/store'' ''cf-cache/store.json'' ''main'']\<rparr>)"
  by (simp add: api_defs postCid_def handlersDown_def worldDown_def world_defs store_defs
      net_defs num_defs key_defs)

theorem handleAPI_reports_exception_message_witness:
  "ar_status (fst (handleAPI handlersDown (postCid (JStr ''1234567'')) env0 worldDown)) = 500"
  using handleAPI_reports_exception_message [OF route_store_down]
  by (simp add: jsonResponse_def)

text \<open>
  The claim as stated fails: with GitHub down, the answer to a \<^verbatim>\<open>POST /api/watchlist\<close>
  carries the detail of the exception of \<^verbatim>\<open>storeLoad\<close>.
\<close>

theorem handleAPI_leaks_store_failure:
  "ar_body (fst (handleAPI handlersDown (postCid (JStr ''1234567'')) env0 worldDown))
     = JObj [(''error'', JStr ''GitHub GET failed 500'')]"
  by (simp add: handleAPI_def route_store_down jsonResponse_def)

section \<open>Cache reads\<close>

text \<open>
  Claim C10, as amended. For an entry stored under the key once the document is
  loaded: when \<^verbatim>\<open>maxAgeSec\<close> is absent or 0 and the entry is truthy, \<^verbatim>\<open>cacheGet\<close>
  returns the entry without looking at its age; when \<^verbatim>\<open>maxAgeSec\<close> is positive and the
  entry has no numeric \<^verbatim>\<open>cached_at\<close>, it returns \<^verbatim>\<open>null\<close>.
\<close>

theorem cacheGet_without_and_with_max_age:
  assumes "storeLoad e w = (Inr (), w')" and "map_of (doc w') key = Some j"
  shows "(truthy j \<and> (maxAge = None \<or> maxAge = Some 0)
            \<longrightarrow> cacheGet e key maxAge w = (Inr j, w')) \<and>
         ((\<exists>m. maxAge = Some m \<and> 0 < m) \<and> (\<forall>c. getProp j ''cached_at'' \<noteq> Some (JNum c))
            \<longrightarrow> cacheGet e key maxAge w = (Inr JNull, w'))"
  using assms
  by (auto simp add: cacheGet_def kvGetJSON_def bindM_def storeGet_def
           split: option.splits json.splits)

theorem cacheGet_without_and_with_max_age_witness:
  "cacheGet env0 ''rating:1234567'' None worldFalsy
     = (Inr (JObj [(''label'', JStr ''C1'')]), worldFalsy) \<and>
   cacheGet env0 ''rating:1234567'' (Some 86400) worldFalsy = (Inr JNull, worldFalsy)"
proof -
  have l: "storeLoad env0 worldFalsy = (Inr (), worldFalsy)"
    by (simp add: storeLoad_def worldFalsy_def loaded_def)
  have m: "map_of (doc worldFalsy) ''rating:1234567'' = Some (JObj [(''label'', JStr ''C1'')])"
    by (simp add: doc_def worldFalsy_def loaded_def)
  from cacheGet_without_and_with_max_age [OF l m, of None]
       cacheGet_without_and_with_max_age [OF l m, of "Some 86400"]
  show ?thesis by simp
qed

text \<open>
  The claim as stated fails on a falsy entry: the number 0 stored under a key is
  answered by \<^verbatim>\<open>null\<close>, not by the entry, also without \<^verbatim>\<open>maxAgeSec\<close>.
\<close>

theorem cacheGet_drops_falsy_entry:
  "map_of (doc worldFalsy) ''config'' = Some (JNum 0) \<and>
   cacheGet env0 ''config'' None worldFalsy = (Inr JNull, worldFalsy)"
  by (simp add: cacheGet_def store_defs worldFalsy_def loaded_def Let_def)

section \<open>CID canonicalisation at the API boundary\<close>

lemma canonicalCID_string:
  "canonicalCID (Some (JStr str)) =
     (if length (filter is_digit str) < 3 \<or> 10 < length (filter is_digit str) then Inr None
      else Inr (Some (dec (str_val (filter is_digit str)))))"
proof (cases "str = []")
  case True
  then show ?thesis by (simp add: canonicalCID_def orElse_def)
next
  case False
  have "list_all is_digit (filter is_digit str)" by (simp add: list_all_iff)
  with False show ?thesis
    by (auto simp add: canonicalCID_def orElse_def jsNumber_def Let_def)
qed

lemma canonicalCID_falsy: "\<not> truthyU s \<Longrightarrow> canonicalCID s = Inr None"
  by (cases s) (auto simp add: canonicalCID_def orElse_def)

lemma canonicalCID_nonempty: "canonicalCID s = Inr (Some c) \<Longrightarrow> c \<noteq> []"
  by (auto simp add: canonicalCID_def orElse_def Let_def jsNumber_def dec_nonempty
      split: json.splits if_splits option.splits)

lemma canonicalCID_result:
  "canonicalCID s = Inr (Some c) \<Longrightarrow> canonicalDigits c \<and> length c \<le> 10"
proof -
  assume a: "canonicalCID s = Inr (Some c)"
  then obtain str where s: "orElse s (JStr []) = JStr str"
    by (auto simp add: canonicalCID_def split: json.splits)
  let ?d = "filter is_digit str"
  have dd: "list_all is_digit ?d" by (simp add: list_all_iff)
  from a s have len: "3 \<le> length ?d" "length ?d \<le> 10" and c: "c = dec (str_val ?d)"
    using dd by (auto simp add: canonicalCID_def Let_def jsNumber_def split: if_splits)
  from dd have "str_val ?d < 10 ^ length ?d" by (rule str_val_bound)
  also from len have "\<dots> \<le> (10::nat) ^ 10" by (intro power_increasing) simp_all
  finally have "length (dec (str_val ?d)) \<le> 10" by (intro dec_length) simp_all
  with c show ?thesis by (simp add: dec_canonical)
qed

lemma addToWatchlist_status:
  assumes "addToWatchlist req e w = (Inr resp, w')"
  shows "ar_status resp = 400 \<longleftrightarrow>
           canonicalCID (getProp (case rq_json req of None \<Rightarrow> JObj [] | Some b \<Rightarrow> b) ''cid'') = Inr None"
  using assms canonicalCID_nonempty
  by (auto simp add: addToWatchlist_def bindM_def returnM_def throwM_def jsonResponse_def Let_def
      split: json.splits sum.splits prod.splits if_splits option.splits)


lemma addToWatchlist_invalid:
  assumes "rq_json req \<noteq> Some JNull"
      and "canonicalCID (getProp (case rq_json req of None \<Rightarrow> JObj [] | Some b \<Rightarrow> b) ''cid'') = Inr None"
  shows "addToWatchlist req e w =
           (Inr (jsonResponse (JObj [(''error'', JStr ''Invalid CID format'')]) 400 e), w)"
  using assms
  by (auto simp add: addToWatchlist_def returnM_def split: option.splits json.splits)

text \<open>
  What the code does where it canonicalises. On a string, and on a falsy argument
  (read as the empty string), \<^verbatim>\<open>canonicalCID\<close> strips the non-digits \<open>d\<close>, returns \<^verbatim>\<open>null\<close> exactly when \<open>d\<close>
  has fewer than 3 or more than 10 digits, and otherwise returns the decimal string of
  the value of \<open>d\<close>: a canonical digit string of the same value. A \<^verbatim>\<open>POST /api/watchlist\<close>
  whose JSON body is not \<^verbatim>\<open>null\<close> answers 400 exactly when the canonicalisation of its
  \<^verbatim>\<open>cid\<close> returns \<^verbatim>\<open>null\<close>, and then with the body \<^verbatim>\<open>{error: "Invalid CID format"}\<close> and
  no change of state.
\<close>

lemma canonicalCID_on_strings_and_post_400:
  fixes str :: string and req :: api_request
  defines "d \<equiv> filter is_digit str"
  defines "reqBody \<equiv> (case rq_json req of None \<Rightarrow> JObj [] | Some b \<Rightarrow> b)"
  shows "(\<not> truthyU s \<longrightarrow> canonicalCID s = Inr None) \<and>
         (length d < 3 \<or> 10 < length d \<longrightarrow> canonicalCID (Some (JStr str)) = Inr None) \<and>
         (3 \<le> length d \<and> length d \<le> 10 \<longrightarrow>
            canonicalCID (Some (JStr str)) = Inr (Some (dec (str_val d))) \<and>
            canonicalDigits (dec (str_val d)) \<and> str_val (dec (str_val d)) = str_val d) \<and>
         (rq_path req = ''/api/watchlist'' \<and> rq_method req = ''POST'' \<and> reqBody \<noteq> JNull \<longrightarrow>
            (ar_status (fst (handleAPI hs req e w)) = 400
               \<longleftrightarrow> canonicalCID (getProp reqBody ''cid'') = Inr None) \<and>
            (canonicalCID (getProp reqBody ''cid'') = Inr None \<longrightarrow>
               handleAPI hs req e w =
                 (jsonResponse (JObj [(''error'', JStr ''Invalid CID format'')]) 400 e, w)))"
proof (intro conjI impI)
  assume "\<not> truthyU s"
  then show "canonicalCID s = Inr None" by (rule canonicalCID_falsy)
next
  assume "length d < 3 \<or> 10 < length d"
  then show "canonicalCID (Some (JStr str)) = Inr None"
    by (simp add: canonicalCID_string d_def)
next
  assume "3 \<le> length d \<and> length d \<le> 10"
  then show "canonicalCID (Some (JStr str)) = Inr (Some (dec (str_val d)))"
    by (simp add: canonicalCID_string d_def)
next
  show "canonicalDigits (dec (str_val d))" by (rule dec_canonical)
next
  show "str_val (dec (str_val d)) = str_val d" by (rule str_val_dec)
next
  assume post: "rq_path req = ''/api/watchlist'' \<and> rq_method req = ''POST'' \<and> reqBody \<noteq> JNull"
  then have r: "route hs req e w = addToWatchlist req e w" by (simp add: route_def)
  from post have nn: "rq_json req \<noteq> Some JNull" by (auto simp add: reqBody_def)
  show "ar_status (fst (handleAPI hs req e w)) = 400
          \<longleftrightarrow> canonicalCID (getProp reqBody ''cid'') = Inr None"
  proof (cases "addToWatchlist req e w")
    case (Pair res w')
    show ?thesis
    proof (cases res)
      case (Inl err)
      with Pair r have "ar_status (fst (handleAPI hs req e w)) = 500"
        by (simp add: handleAPI_def jsonResponse_def)
      moreover have "canonicalCID (getProp reqBody ''cid'') \<noteq> Inr None"
      proof
        assume "canonicalCID (getProp reqBody ''cid'') = Inr None"
        with nn have "addToWatchlist req e w =
           (Inr (jsonResponse (JObj [(''error'', JStr ''Invalid CID format'')]) 400 e), w)"
          unfolding reqBody_def by (rule addToWatchlist_invalid)
        with Pair Inl show False by simp
      qed
      ultimately show ?thesis by simp
    next
      case (Inr resp)
      with Pair r have "fst (handleAPI hs req e w) = resp" by (simp add: handleAPI_def)
      moreover from Pair Inr have "ar_status resp = 400 \<longleftrightarrow>
          canonicalCID (getProp reqBody ''cid'') = Inr None"
        unfolding reqBody_def by (simp add: addToWatchlist_status)
      ultimately show ?thesis by simp
    qed
  qed
next
  assume post: "rq_path req = ''/api/watchlist'' \<and> rq_method req = ''POST'' \<and> reqBody \<noteq> JNull"
    and nul: "canonicalCID (getProp reqBody ''cid'') = Inr None"
  from post have r: "route hs req e w = addToWatchlist req e w" by (simp add: route_def)
  from post have nn: "rq_json req \<noteq> Some JNull" by (auto simp add: reqBody_def)
  from nn nul have "addToWatchlist req e w =
           (Inr (jsonResponse (JObj [(''error'', JStr ''Invalid CID format'')]) 400 e), w)"
    unfolding reqBody_def by (rule addToWatchlist_invalid)
  with r show "handleAPI hs req e w =
      (jsonResponse (JObj [(''error'', JStr ''Invalid CID format'')]) 400 e, w)"
    by (simp add: handleAPI_def)
qed

lemma canonicalCID_on_strings_run:
  "canonicalCID (Some (JStr ''CID 0012'')) = Inr (Some ''12'') \<and>
   canonicalCID (Some (JStr ''12'')) = Inr None \<and>
   handleAPI handlersDown (postCid (JStr ''12'')) env0 (loaded [] []) =
     (jsonResponse (JObj [(''error'', JStr ''Invalid CID format'')]) 400 env0, loaded [] [])"
proof -
  from canonicalCID_on_strings_and_post_400
         [of None "''CID 0012''" "postCid (JStr ''12'')" handlersDown env0 "loaded [] []"]
       canonicalCID_on_strings_and_post_400
         [of None "''12''" "postCid (JStr ''12'')" handlersDown env0 "loaded [] []"]
  show ?thesis by (simp add: num_defs postCid_def)
qed

text \<open>
  Claim C4. For every input \<^verbatim>\<open>canonicalCID\<close> should strip the non-digits and return
  \<^verbatim>\<open>null\<close> or the decimal string, and \<^verbatim>\<open>POST /api/watchlist\<close> should answer 400
  exactly when the canonicalisation of the request's \<^verbatim>\<open>cid\<close> gives \<^verbatim>\<open>null\<close>. The code
  guards the argument with \<^verbatim>\<open>s||""\<close> and so misses the truthy values that are
  not strings. With the JSON number 1234567 as \<^verbatim>\<open>cid\<close> the seven digits are not
  canonicalised: the call throws a \<^verbatim>\<open>TypeError\<close> and the request is answered 500 with
  the engine's message, where the string \<^verbatim>\<open>"1234567"\<close> is canonical, and where the
  same handler answers the number 0, a missing \<^verbatim>\<open>cid\<close> and a body that does not parse
  with 400 \<^verbatim>\<open>Invalid CID format\<close>.
\<close>

theorem post_numeric_cid_answers_500:
  \<open>canonicalCID (Some (JNum 1234567)) = Inl (TypeError ''(s || "").replace is not a function'') \<and>
   handleAPI handlersDown (postCid (JNum 1234567)) env0 (loaded [] []) =
     (jsonResponse (JObj [(''error'', JStr ''(s || "").replace is not a function'')]) 500 env0,
      loaded [] []) \<and>
   canonicalCID (Some (JStr ''1234567'')) = Inr (Some ''1234567'') \<and>
   handleAPI handlersDown (postCid (JNum 0)) env0 (loaded [] []) =
     (jsonResponse (JObj [(''error'', JStr ''Invalid CID format'')]) 400 env0, loaded [] []) \<and>
   handleAPI handlersDown
       \<lparr>rq_path = ''/api/watchlist'', rq_method = ''POST'', rq_json = Some (JObj [])\<rparr>
       env0 (loaded [] []) =
     (jsonResponse (JObj [(''error'', JStr ''Invalid CID format'')]) 400 env0, loaded [] []) \<and>
   handleAPI handlersDown
       \<lparr>rq_path = ''/api/watchlist'', rq_method = ''POST'', rq_json = None\<rparr>
       env0 (loaded [] []) =
     (jsonResponse (JObj [(''error'', JStr ''Invalid CID format'')]) 400 env0, loaded [] [])\<close>
  by (simp add: api_defs postCid_def store_defs num_defs)

section \<open>What the transport leaves alone\<close>

text \<open>
  The transport changes the network, the request log and the subrequest counter only;
  a call within the budget sends its request at least once.
\<close>

lemma fetch_frame:
  assumes "fetch rq w = (out, w')"
  shows "GH_STORE w' = GH_STORE w \<and> GH_STORE_SHA w' = GH_STORE_SHA w \<and>
         GH_STORE_DIRTY w' = GH_STORE_DIRTY w \<and> subreqCount w' = subreqCount w \<and>
         now w' = now w \<and> sent w' = sent w @ [rq]"
  using assms by (auto simp add: fetch_def split: list.splits)

lemma ghFetchLoop_frame:
  assumes "ghFetchLoop k rq w = (r, w')"
  shows "GH_STORE w' = GH_STORE w \<and> GH_STORE_SHA w' = GH_STORE_SHA w \<and>
         GH_STORE_DIRTY w' = GH_STORE_DIRTY w \<and> subreqCount w' = subreqCount w \<and>
         now w' = now w \<and>
         (\<exists>n. n \<le> k \<and> (0 < k \<longrightarrow> 0 < n) \<and> sent w' = sent w @ replicate n rq)"
  using assms
proof (induction k arbitrary: w)
  case 0
  then show ?case by simp
next
  case (Suc k)
  obtain out w1 where f: "fetch rq w = (out, w1)" by (cases "fetch rq w")
  note fr = fetch_frame [OF f]
  show ?case
  proof (cases "ghFetchLoop (Suc k) rq w = ghFetchLoop k rq w1 \<and> 0 < k")
    case True
    with Suc.prems have "ghFetchLoop k rq w1 = (r, w')" by simp
    from Suc.IH [OF this] obtain n where
      n: "n \<le> k" "sent w' = sent w1 @ replicate n rq"
      and rest: "GH_STORE w' = GH_STORE w1" "GH_STORE_SHA w' = GH_STORE_SHA w1"
        "GH_STORE_DIRTY w' = GH_STORE_DIRTY w1" "subreqCount w' = subreqCount w1" "now w' = now w1"
      by auto
    from n fr have "sent w' = sent w @ replicate (Suc n) rq"
      by (simp add: replicate_app_Cons_same)
    with n(1) rest fr show ?thesis by (intro conjI exI [of _ "Suc n"]) simp_all
  next
    case False
    with Suc.prems f have "w' = w1"
      by (cases out) (auto split: if_splits)
    with fr show ?thesis by (intro conjI exI [of _ "Suc 0"]) simp_all
  qed
qed

lemma ghFetch_frame:
  assumes "ghFetch rq w = (r, w')"
  shows "GH_STORE w' = GH_STORE w \<and> GH_STORE_SHA w' = GH_STORE_SHA w \<and>
         GH_STORE_DIRTY w' = GH_STORE_DIRTY w \<and> subreqCount w' = subreqCount w \<and>
         now w' = now w \<and>
         (\<exists>n. 0 < n \<and> sent w' = sent w @ replicate n rq)"
  using ghFetchLoop_frame [of 3 rq w r w'] assms by (auto simp add: ghFetch_def)

lemma ghPut_frame:
  assumes "ghPut e path obj sha msg w = (r, w')"
  shows "GH_STORE w' = GH_STORE w \<and> GH_STORE_SHA w' = GH_STORE_SHA w \<and>
         GH_STORE_DIRTY w' = GH_STORE_DIRTY w \<and> now w' = now w \<and>
         subreqCount w' \<le> subreqCount w + 1 \<and>
         (subreqCount w < SUBREQ_BUDGET_PER_TICK \<longrightarrow>
            subreqCount w' = subreqCount w + 1 \<and>
            (\<exists>n. 0 < n \<and> sent w' = sent w @ replicate n (putRequest e path obj sha msg)))"
proof (cases "subreqCount w \<ge> SUBREQ_BUDGET_PER_TICK")
  case True
  with assms show ?thesis by (simp add: ghPut_def)
next
  case False
  let ?w0 = "w\<lparr>subreqCount := subreqCount w + 1\<rparr>"
  obtain r0 w1 where f: "ghFetch (putRequest e path obj sha msg) ?w0 = (r0, w1)"
    by (cases "ghFetch (putRequest e path obj sha msg) ?w0")
  from assms False f have "w' = w1"
    by (auto simp add: ghPut_def split: option.splits if_splits body.splits)
  with ghFetch_frame [OF f] False show ?thesis by auto
qed

lemma ghGet_frame:
  assumes "ghGet e path w = (r, w')"
  shows "GH_STORE w' = GH_STORE w \<and> GH_STORE_SHA w' = GH_STORE_SHA w \<and>
         GH_STORE_DIRTY w' = GH_STORE_DIRTY w \<and> now w' = now w \<and>
         subreqCount w' \<le> subreqCount w + 1 \<and>
         (subreqCount w < SUBREQ_BUDGET_PER_TICK \<longrightarrow> subreqCount w' = subreqCount w + 1) \<and>
         (\<exists>more. sent w' = sent w @ more)"
proof (cases "subreqCount w \<ge> SUBREQ_BUDGET_PER_TICK")
  case True
  with assms show ?thesis by (simp add: ghGet_def)
next
  case False
  let ?w0 = "w\<lparr>subreqCount := subreqCount w + 1\<rparr>"
  let ?rq = "GhGetReq (GITHUB_REPO e) path (strOr (GITHUB_BRANCH e) ''main'')"
  obtain r0 w1 where f: "ghFetch ?rq ?w0 = (r0, w1)" by (cases "ghFetch ?rq ?w0")
  from assms False f have "w' = w1"
    by (auto simp add: ghGet_def split: option.splits if_splits body.splits content.splits)
  with ghFetch_frame [OF f] False show ?thesis by auto
qed

lemma ghGet_ok_doc: "ghGet e path w = (Inr (GhOk sha d), w') \<Longrightarrow> d \<noteq> None"
  by (auto simp add: ghGet_def split: if_splits prod.splits option.splits body.splits content.splits)

lemma trackedFetch_frame:
  assumes "trackedFetch url w = (r, w')"
  shows "GH_STORE w' = GH_STORE w \<and> GH_STORE_SHA w' = GH_STORE_SHA w \<and>
         GH_STORE_DIRTY w' = GH_STORE_DIRTY w \<and> now w' = now w"
proof (cases "subreqCount w \<ge> SUBREQ_BUDGET_PER_TICK")
  case True
  with assms show ?thesis by (simp add: trackedFetch_def)
next
  case False
  let ?w0 = "w\<lparr>subreqCount := subreqCount w + 1\<rparr>"
  obtain out w1 where f: "fetch (DataReq url) ?w0 = (out, w1)" by (cases "fetch (DataReq url) ?w0")
  from assms False f have "w' = w1" by (cases out) (auto simp add: trackedFetch_def)
  with fetch_frame [OF f] show ?thesis by simp
qed

lemma storeLoad_loaded: "GH_STORE w = Some st \<Longrightarrow> storeLoad e w = (Inr (), w)"
  by (simp add: storeLoad_def)

lemma shallowMerge_lookup:
  "map_of (shallowMerge remote local) k =
     (case map_of local k of Some v \<Rightarrow> Some v | None \<Rightarrow> map_of remote k)"
proof -
  have "map_of (fold (\<lambda>k m. case map_of local k of None \<Rightarrow> m | Some v \<Rightarrow> AList.update k v m) ks remote) k
        = (if k \<in> set ks then (case map_of local k of Some v \<Rightarrow> Some v | None \<Rightarrow> map_of remote k)
           else map_of remote k)" for ks
  proof (induction ks arbitrary: remote)
    case Nil
    then show ?case by simp
  next
    case (Cons a ks)
    show ?case
      by (cases "map_of local a") (auto simp add: Cons.IH update_conv' split: option.splits)
  qed
  note fold = this [of "map fst local"]
  show ?thesis
  proof (cases "map_of local k")
    case None
    with fold show ?thesis by (simp add: shallowMerge_def)
  next
    case (Some v)
    then have "(k, v) \<in> set local" by (rule map_of_SomeD)
    then have "k \<in> set (map fst local)" by force
    with fold Some show ?thesis by (simp add: shallowMerge_def)
  qed
qed

section \<open>Flushing the store\<close>

lemma flush_clean: "\<not> GH_STORE_DIRTY w \<Longrightarrow> storeFlush e msg w = (Inr (), w)"
  by (simp add: storeFlush_def)

lemma flush_put_throws:
  "GH_STORE_DIRTY w \<Longrightarrow> ghPut e (storePath e) (doc w) (GH_STORE_SHA w) msg w = (Inl err, w1)
     \<Longrightarrow> storeFlush e msg w = (Inl err, w1)"
  by (simp add: storeFlush_def bindM_def)

lemma flush_put_ok:
  "GH_STORE_DIRTY w \<Longrightarrow> ghPut e (storePath e) (doc w) (GH_STORE_SHA w) msg w = (Inr (GhOk sha d), w1)
     \<Longrightarrow> storeFlush e msg w =
           (Inr (), w1\<lparr>GH_STORE_SHA := (case orNull sha of None \<Rightarrow> GH_STORE_SHA w1 | Some s \<Rightarrow> Some s),
                       GH_STORE_DIRTY := False\<rparr>)"
  by (simp add: storeFlush_def bindM_def returnM_def)

lemma flush_put_fails:
  "GH_STORE_DIRTY w \<Longrightarrow> ghPut e (storePath e) (doc w) (GH_STORE_SHA w) msg w = (Inr (GhFail st t), w1)
     \<Longrightarrow> st \<noteq> 409 \<Longrightarrow> storeFlush e msg w = (Inl (putFailed st t), w1)"
  by (simp add: storeFlush_def bindM_def returnM_def throwM_def)

lemma flush_conflict_get_throws:
  "GH_STORE_DIRTY w \<Longrightarrow> ghPut e (storePath e) (doc w) (GH_STORE_SHA w) msg w = (Inr (GhFail 409 t), w1)
     \<Longrightarrow> ghGet e (storePath e) w1 = (Inl err, w2)
     \<Longrightarrow> storeFlush e msg w = (Inl err, w2)"
  by (simp add: storeFlush_def bindM_def returnM_def throwM_def)

lemma flush_conflict_get_fails:
  "GH_STORE_DIRTY w \<Longrightarrow> ghPut e (storePath e) (doc w) (GH_STORE_SHA w) msg w = (Inr (GhFail 409 t), w1)
     \<Longrightarrow> ghGet e (storePath e) w1 = (Inr (GhFail st' t'), w2)
     \<Longrightarrow> storeFlush e msg w = (Inl (putFailed 409 t), w2)"
  by (simp add: storeFlush_def bindM_def returnM_def throwM_def)

lemma flush_conflict_retry:
  "GH_STORE_DIRTY w \<Longrightarrow> ghPut e (storePath e) (doc w) (GH_STORE_SHA w) msg w = (Inr (GhFail 409 t), w1)
     \<Longrightarrow> ghGet e (storePath e) w1 = (Inr (GhOk rsha (Some rdoc)), w2)
     \<Longrightarrow> storeFlush e msg w =
           (case ghPut e (storePath e) (shallowMerge rdoc (doc w2)) (orNull rsha) msg
                   (w2\<lparr>GH_STORE := Some (shallowMerge rdoc (doc w2)), GH_STORE_SHA := orNull rsha\<rparr>) of
              (Inl err, w4) \<Rightarrow> (Inl err, w4)
            | (Inr (GhFail st' t'), w4) \<Rightarrow> (Inl (putFailed st' t'), w4)
            | (Inr (GhOk sha d), w4) \<Rightarrow>
                (Inr (), w4\<lparr>GH_STORE_SHA := (case orNull sha of None \<Rightarrow> GH_STORE_SHA w4 | Some s \<Rightarrow> Some s),
                            GH_STORE_DIRTY := False\<rparr>))"
  by (simp add: storeFlush_def bindM_def returnM_def throwM_def Let_def
      split: prod.splits sum.splits gh_result.splits)


lemma ghPut_sent_prefix:
  assumes "ghPut e path obj sha msg w = (r, w')"
  shows "\<exists>more. sent w' = sent w @ more"
proof (cases "subreqCount w < SUBREQ_BUDGET_PER_TICK")
  case True
  with ghPut_frame [OF assms] show ?thesis by auto
next
  case False
  with assms show ?thesis by (simp add: ghPut_def)
qed

lemma flush_dirty_outcome:
  assumes d: "GH_STORE_DIRTY w" and f: "storeFlush e msg w = (res, w')"
  shows "(res = Inr () \<longrightarrow> \<not> GH_STORE_DIRTY w') \<and> (\<forall>err. res = Inl err \<longrightarrow> GH_STORE_DIRTY w') \<and>
         subreqCount w' \<le> subreqCount w + 3 \<and>
         (\<exists>more. sent w' =
            sent (snd (ghPut e (storePath e) (doc w) (GH_STORE_SHA w) msg w)) @ more) \<and>
         (GH_STORE w' = GH_STORE w \<or> (\<exists>rdoc. GH_STORE w' = Some (shallowMerge rdoc (doc w)))) \<and>
         now w' = now w"
proof -
  obtain r1 w1 where p1: "ghPut e (storePath e) (doc w) (GH_STORE_SHA w) msg w = (r1, w1)"
    by (cases "ghPut e (storePath e) (doc w) (GH_STORE_SHA w) msg w")
  from ghPut_frame [OF p1] d
  have f1: "GH_STORE_DIRTY w1" "subreqCount w1 \<le> subreqCount w + 1"
    "GH_STORE w1 = GH_STORE w" "now w1 = now w" by simp_all
  from p1 have s1: "snd (ghPut e (storePath e) (doc w) (GH_STORE_SHA w) msg w) = w1" by simp
  have "(res = Inr () \<longrightarrow> \<not> GH_STORE_DIRTY w') \<and> (\<forall>err. res = Inl err \<longrightarrow> GH_STORE_DIRTY w') \<and>
         subreqCount w' \<le> subreqCount w + 3 \<and> (\<exists>more. sent w' = sent w1 @ more) \<and>
         (GH_STORE w' = GH_STORE w \<or> (\<exists>rdoc. GH_STORE w' = Some (shallowMerge rdoc (doc w)))) \<and>
         now w' = now w"
  proof (cases r1)
    case (Inl err)
    with flush_put_throws [OF d] p1 f f1 show ?thesis by auto
  next
    case (Inr g1)
    show ?thesis
    proof (cases g1)
      case (GhOk sha dd)
      with flush_put_ok [OF d] p1 Inr f f1 show ?thesis by auto
    next
      case (GhFail st t)
      show ?thesis
      proof (cases "st = 409")
        case False
        with flush_put_fails [OF d] p1 Inr GhFail f f1 show ?thesis by auto
      next
        case True
        with p1 Inr GhFail
        have p1': "ghPut e (storePath e) (doc w) (GH_STORE_SHA w) msg w = (Inr (GhFail 409 t), w1)"
          by simp
        obtain r2 w2 where g: "ghGet e (storePath e) w1 = (r2, w2)"
          by (cases "ghGet e (storePath e) w1")
        from ghGet_frame [OF g] f1
        have f2: "GH_STORE_DIRTY w2" "subreqCount w2 \<le> subreqCount w + 2"
          "\<exists>more. sent w2 = sent w1 @ more" "GH_STORE w2 = GH_STORE w" "now w2 = now w"
          by simp_all
        then have dw: "doc w2 = doc w" by (simp add: doc_def)
        show ?thesis
        proof (cases r2)
          case (Inl err)
          with flush_conflict_get_throws [OF d p1'] g f f2 show ?thesis by auto
        next
          case (Inr g2)
          note r2 = this
          show ?thesis
          proof (cases g2)
            case (GhFail st' t')
            with flush_conflict_get_fails [OF d p1'] g r2 f f2 show ?thesis by auto
          next
            case (GhOk rsha rd)
            with g r2 have "ghGet e (storePath e) w1 = (Inr (GhOk rsha rd), w2)" by simp
            from ghGet_ok_doc [OF this] obtain rdoc where rd: "rd = Some rdoc" by auto
            let ?m = "shallowMerge rdoc (doc w2)"
            let ?w3 = "w2\<lparr>GH_STORE := Some ?m, GH_STORE_SHA := orNull rsha\<rparr>"
            obtain r3 w4 where p3: "ghPut e (storePath e) ?m (orNull rsha) msg ?w3 = (r3, w4)"
              by (cases "ghPut e (storePath e) ?m (orNull rsha) msg ?w3")
            from ghPut_frame [OF p3] f2 dw
            have f4: "GH_STORE_DIRTY w4" "subreqCount w4 \<le> subreqCount w + 3"
              "GH_STORE w4 = Some (shallowMerge rdoc (doc w))" "now w4 = now w" by simp_all
            from ghPut_sent_prefix [OF p3] f2(3)
            have s4: "\<exists>more. sent w4 = sent w1 @ more" by auto
            from flush_conflict_retry [OF d p1'] g r2 GhOk rd p3 f
            have "(res, w') = (case (r3, w4) of
                (Inl err, w4) \<Rightarrow> (Inl err, w4)
              | (Inr (GhFail st' t'), w4) \<Rightarrow> (Inl (putFailed st' t'), w4)
              | (Inr (GhOk sha d), w4) \<Rightarrow>
                  (Inr (), w4\<lparr>GH_STORE_SHA := (case orNull sha of None \<Rightarrow> GH_STORE_SHA w4 | Some s \<Rightarrow> Some s),
                              GH_STORE_DIRTY := False\<rparr>))"
              by simp
            with f4 s4 show ?thesis by (auto split: sum.splits gh_result.splits)
          qed
        qed
      qed
    qed
  qed
  with s1 show ?thesis by simp
qed

lemma flush_keeps_local_keys:
  assumes f: "storeFlush e msg w = (res, w')" and k: "map_of (doc w) k = Some v"
  shows "map_of (doc w') k = Some v \<and> now w' = now w \<and> GH_STORE w' \<noteq> None"
proof (cases "GH_STORE_DIRTY w")
  case False
  from f flush_clean [OF False, of e msg] have "w' = w" by simp
  with k show ?thesis by (auto simp add: doc_def split: option.splits)
next
  case True
  from flush_dirty_outcome [OF True f]
  have alt: "GH_STORE w' = GH_STORE w \<or> (\<exists>rdoc. GH_STORE w' = Some (shallowMerge rdoc (doc w)))"
    and n: "now w' = now w" by simp_all
  from alt show ?thesis
  proof
    assume "GH_STORE w' = GH_STORE w"
    with k n show ?thesis by (auto simp add: doc_def split: option.splits)
  next
    assume "\<exists>rdoc. GH_STORE w' = Some (shallowMerge rdoc (doc w))"
    then obtain rdoc where "GH_STORE w' = Some (shallowMerge rdoc (doc w))" ..
    with k n show ?thesis by (simp add: doc_def [of w'] shallowMerge_lookup)
  qed
qed

lemma flush_conflict_merge:
  assumes d: "GH_STORE_DIRTY w"
      and p1: "ghPut e (storePath e) (doc w) (GH_STORE_SHA w) msg w = (Inr (GhFail 409 t), w1)"
      and g: "ghGet e (storePath e) w1 = (Inr (GhOk rsha (Some rdoc)), w2)"
      and f: "storeFlush e msg w = (res, w')"
  shows "GH_STORE w' = Some (shallowMerge rdoc (doc w)) \<and>
         (subreqCount w2 < SUBREQ_BUDGET_PER_TICK \<longrightarrow>
            subreqCount w' = subreqCount w2 + 1 \<and>
            last (sent w') = putRequest e (storePath e) (shallowMerge rdoc (doc w)) rsha msg)"
proof -
  from ghPut_frame [OF p1] ghGet_frame [OF g] have dw: "doc w2 = doc w" by (simp add: doc_def)
  let ?m = "shallowMerge rdoc (doc w)"
  let ?w3 = "w2\<lparr>GH_STORE := Some ?m, GH_STORE_SHA := orNull rsha\<rparr>"
  obtain r3 w4 where p3: "ghPut e (storePath e) ?m (orNull rsha) msg ?w3 = (r3, w4)"
    by (cases "ghPut e (storePath e) ?m (orNull rsha) msg ?w3")
  note f4 = ghPut_frame [OF p3]
  have rq: "putRequest e (storePath e) ?m (orNull rsha) msg = putRequest e (storePath e) ?m rsha msg"
    by (simp add: putRequest_def orNull_def split: option.splits)
  from flush_conflict_retry [OF d p1 g] dw p3 f
  have w': "GH_STORE w' = GH_STORE w4 \<and> subreqCount w' = subreqCount w4 \<and> sent w' = sent w4"
    by (auto split: sum.splits gh_result.splits)
  with f4 have "GH_STORE w' = Some ?m" by simp
  moreover have "subreqCount w' = subreqCount w2 + 1 \<and> last (sent w') = putRequest e (storePath e) ?m rsha msg"
    if b: "subreqCount w2 < SUBREQ_BUDGET_PER_TICK"
  proof -
    from f4 b obtain n where n: "0 < n" "sent w4 = sent ?w3 @ replicate n (putRequest e (storePath e) ?m (orNull rsha) msg)"
      and c: "subreqCount w4 = subreqCount w2 + 1" by auto
    from n have "last (sent w4) = putRequest e (storePath e) ?m (orNull rsha) msg" by simp
    with w' c rq show ?thesis by simp
  qed
  ultimately show ?thesis by blast
qed

lemma flush_first_request:
  assumes d: "GH_STORE_DIRTY w" and b: "subreqCount w < SUBREQ_BUDGET_PER_TICK"
      and f: "storeFlush e msg w = (res, w')"
  shows "length (sent w) < length (sent w') \<and>
         sent w' ! length (sent w) = putRequest e (storePath e) (doc w) (GH_STORE_SHA w) msg"
proof -
  obtain r1 w1 where p1: "ghPut e (storePath e) (doc w) (GH_STORE_SHA w) msg w = (r1, w1)"
    by (cases "ghPut e (storePath e) (doc w) (GH_STORE_SHA w) msg w")
  from ghPut_frame [OF p1] b obtain n where
    n: "0 < n" "sent w1 = sent w @ replicate n (putRequest e (storePath e) (doc w) (GH_STORE_SHA w) msg)"
    by auto
  from flush_dirty_outcome [OF d f] p1 obtain more where "sent w' = sent w1 @ more" by auto
  with n show ?thesis by (simp add: nth_append)
qed


text \<open>
  Claim C2. \<^verbatim>\<open>storeFlush\<close> on a clean store does nothing. On a dirty store the first
  request it sends is the PUT of the document in memory with the last-observed SHA
  as precondition. If that PUT succeeds the flush returns with the dirty flag
  cleared; if the call throws, or fails with a status other than 409, the flush
  throws at once. On 409 it re-fetches: a re-fetch that throws or fails makes the
  flush throw (the conflict, in the second case) without another PUT; with the
  remote document in hand the store becomes the shallow merge in which local keys
  win, and exactly one more PUT call follows, of the merged document under the
  remote SHA. Whatever goes wrong with that PUT, a second 409 included, is thrown;
  only its success returns and clears the flag. There are at most three store calls
  in all, and every throw leaves the dirty flag set.
\<close>

theorem storeFlush_protocol:
  assumes f: "storeFlush e msg w = (res, w')"
  shows "(\<not> GH_STORE_DIRTY w \<longrightarrow> res = Inr () \<and> w' = w) \<and>
         (GH_STORE_DIRTY w \<longrightarrow>
            (res = Inr () \<longrightarrow> \<not> GH_STORE_DIRTY w') \<and>
            (\<forall>err. res = Inl err \<longrightarrow> GH_STORE_DIRTY w') \<and>
            subreqCount w' \<le> subreqCount w + 3 \<and>
            (subreqCount w < SUBREQ_BUDGET_PER_TICK \<longrightarrow>
               length (sent w) < length (sent w') \<and>
               sent w' ! length (sent w) =
                 GhPutReq (GITHUB_REPO e) (storePath e)
                   \<lparr>pb_message = (if msg = [] then ''bot: update '' @ storePath e else msg),
                    pb_branch = strOr (GITHUB_BRANCH e) ''main'',
                    pb_content = doc w,
                    pb_sha = orNull (GH_STORE_SHA w)\<rparr>) \<and>
            (\<forall>err w1.
               ghPut e (storePath e) (doc w) (GH_STORE_SHA w) msg w = (Inl err, w1)
                 \<longrightarrow> res = Inl err \<and> w' = w1) \<and>
            (\<forall>sha d w1.
               ghPut e (storePath e) (doc w) (GH_STORE_SHA w) msg w = (Inr (GhOk sha d), w1)
                 \<longrightarrow> res = Inr () \<and>
                     w' = w1\<lparr>GH_STORE_SHA := (case orNull sha of None \<Rightarrow> GH_STORE_SHA w
                                                 | Some s \<Rightarrow> Some s),
                             GH_STORE_DIRTY := False\<rparr>) \<and>
            (\<forall>st t w1.
               ghPut e (storePath e) (doc w) (GH_STORE_SHA w) msg w = (Inr (GhFail st t), w1) \<and>
               st \<noteq> 409 \<longrightarrow> res = Inl (putFailed st t) \<and> w' = w1) \<and>
            (\<forall>t w1 w2.
               ghPut e (storePath e) (doc w) (GH_STORE_SHA w) msg w = (Inr (GhFail 409 t), w1) \<longrightarrow>
                 (\<forall>err. ghGet e (storePath e) w1 = (Inl err, w2) \<longrightarrow> res = Inl err \<and> w' = w2) \<and>
                 (\<forall>st' t'. ghGet e (storePath e) w1 = (Inr (GhFail st' t'), w2)
                    \<longrightarrow> res = Inl (putFailed 409 t) \<and> w' = w2) \<and>
                 (\<forall>rsha rdoc w4.
                    ghGet e (storePath e) w1 = (Inr (GhOk rsha (Some rdoc)), w2) \<longrightarrow>
                      (\<forall>k. map_of (shallowMerge rdoc (doc w)) k =
                             (case map_of (doc w) k of Some v \<Rightarrow> Some v | None \<Rightarrow> map_of rdoc k)) \<and>
                      GH_STORE w' = Some (shallowMerge rdoc (doc w)) \<and>
                      (subreqCount w2 < SUBREQ_BUDGET_PER_TICK \<longrightarrow>
                         subreqCount w' = subreqCount w2 + 1 \<and>
                         last (sent w') =
                           GhPutReq (GITHUB_REPO e) (storePath e)
                             \<lparr>pb_message = (if msg = [] then ''bot: update '' @ storePath e else msg),
                              pb_branch = strOr (GITHUB_BRANCH e) ''main'',
                              pb_content = shallowMerge rdoc (doc w),
                              pb_sha = orNull rsha\<rparr>) \<and>
                      (\<forall>err.
                         ghPut e (storePath e) (shallowMerge rdoc (doc w)) (orNull rsha) msg
                           (w2\<lparr>GH_STORE := Some (shallowMerge rdoc (doc w)),
                               GH_STORE_SHA := orNull rsha\<rparr>) = (Inl err, w4)
                           \<longrightarrow> res = Inl err \<and> w' = w4) \<and>
                      (\<forall>st' t'.
                         ghPut e (storePath e) (shallowMerge rdoc (doc w)) (orNull rsha) msg
                           (w2\<lparr>GH_STORE := Some (shallowMerge rdoc (doc w)),
                               GH_STORE_SHA := orNull rsha\<rparr>) = (Inr (GhFail st' t'), w4)
                           \<longrightarrow> res = Inl (putFailed st' t') \<and> w' = w4) \<and>
                      (\<forall>sha d.
                         ghPut e (storePath e) (shallowMerge rdoc (doc w)) (orNull rsha) msg
                           (w2\<lparr>GH_STORE := Some (shallowMerge rdoc (doc w)),
                               GH_STORE_SHA := orNull rsha\<rparr>) = (Inr (GhOk sha d), w4)
                           \<longrightarrow> res = Inr () \<and>
                               w' = w4\<lparr>GH_STORE_SHA := (case orNull sha of None \<Rightarrow> orNull rsha
                                                           | Some s \<Rightarrow> Some s),
                                       GH_STORE_DIRTY := False\<rparr>))))"
proof (cases "GH_STORE_DIRTY w")
  case False
  with f flush_clean [of w e msg] show ?thesis by simp
next
  case d: True
  let ?put = "ghPut e (storePath e) (doc w) (GH_STORE_SHA w) msg w"
  note o = flush_dirty_outcome [OF d f]
  have c1: "res = Inr () \<longrightarrow> \<not> GH_STORE_DIRTY w'" using o by simp
  have c2: "\<forall>err. res = Inl err \<longrightarrow> GH_STORE_DIRTY w'" using o by simp
  have c3: "subreqCount w' \<le> subreqCount w + 3" using o by simp
  have c4: "subreqCount w < SUBREQ_BUDGET_PER_TICK \<longrightarrow>
               length (sent w) < length (sent w') \<and>
               sent w' ! length (sent w) =
                 GhPutReq (GITHUB_REPO e) (storePath e)
                   \<lparr>pb_message = (if msg = [] then ''bot: update '' @ storePath e else msg),
                    pb_branch = strOr (GITHUB_BRANCH e) ''main'',
                    pb_content = doc w,
                    pb_sha = orNull (GH_STORE_SHA w)\<rparr>"
    using flush_first_request [OF d _ f] by (simp add: putRequest_def)
  have c5: "\<forall>err w1. ?put = (Inl err, w1) \<longrightarrow> res = Inl err \<and> w' = w1"
    using flush_put_throws [OF d] f by auto
  have c6: "\<forall>sha dd w1. ?put = (Inr (GhOk sha dd), w1)
              \<longrightarrow> res = Inr () \<and>
                  w' = w1\<lparr>GH_STORE_SHA := (case orNull sha of None \<Rightarrow> GH_STORE_SHA w
                                              | Some s \<Rightarrow> Some s),
                          GH_STORE_DIRTY := False\<rparr>"
  proof (intro allI impI)
    fix sha dd w1
    assume p: "?put = (Inr (GhOk sha dd), w1)"
    from ghPut_frame [OF p] have "GH_STORE_SHA w1 = GH_STORE_SHA w" by simp
    with flush_put_ok [OF d p] f
    show "res = Inr () \<and>
          w' = w1\<lparr>GH_STORE_SHA := (case orNull sha of None \<Rightarrow> GH_STORE_SHA w | Some s \<Rightarrow> Some s),
                  GH_STORE_DIRTY := False\<rparr>"
      by (cases "orNull sha") simp_all
  qed
  have c7: "\<forall>st t w1. ?put = (Inr (GhFail st t), w1) \<and> st \<noteq> 409
              \<longrightarrow> res = Inl (putFailed st t) \<and> w' = w1"
    using flush_put_fails [OF d] f by auto
  have c8: "\<forall>t w1 w2.
               ?put = (Inr (GhFail 409 t), w1) \<longrightarrow>
                 (\<forall>err. ghGet e (storePath e) w1 = (Inl err, w2) \<longrightarrow> res = Inl err \<and> w' = w2) \<and>
                 (\<forall>st' t'. ghGet e (storePath e) w1 = (Inr (GhFail st' t'), w2)
                    \<longrightarrow> res = Inl (putFailed 409 t) \<and> w' = w2) \<and>
                 (\<forall>rsha rdoc w4.
                    ghGet e (storePath e) w1 = (Inr (GhOk rsha (Some rdoc)), w2) \<longrightarrow>
                      (\<forall>k. map_of (shallowMerge rdoc (doc w)) k =
                             (case map_of (doc w) k of Some v \<Rightarrow> Some v | None \<Rightarrow> map_of rdoc k)) \<and>
                      GH_STORE w' = Some (shallowMerge rdoc (doc w)) \<and>
                      (subreqCount w2 < SUBREQ_BUDGET_PER_TICK \<longrightarrow>
                         subreqCount w' = subreqCount w2 + 1 \<and>
                         last (sent w') =
                           GhPutReq (GITHUB_REPO e) (storePath e)
                             \<lparr>pb_message = (if msg = [] then ''bot: update '' @ storePath e else msg),
                              pb_branch = strOr (GITHUB_BRANCH e) ''main'',
                              pb_content = shallowMerge rdoc (doc w),
                              pb_sha = orNull rsha\<rparr>) \<and>
                      (\<forall>err.
                         ghPut e (storePath e) (shallowMerge rdoc (doc w)) (orNull rsha) msg
                           (w2\<lparr>GH_STORE := Some (shallowMerge rdoc (doc w)),
                               GH_STORE_SHA := orNull rsha\<rparr>) = (Inl err, w4)
                           \<longrightarrow> res = Inl err \<and> w' = w4) \<and>
                      (\<forall>st' t'.
                         ghPut e (storePath e) (shallowMerge rdoc (doc w)) (orNull rsha) msg
                           (w2\<lparr>GH_STORE := Some (shallowMerge rdoc (doc w)),
                               GH_STORE_SHA := orNull rsha\<rparr>) = (Inr (GhFail st' t'), w4)
                           \<longrightarrow> res = Inl (putFailed st' t') \<and> w' = w4) \<and>
                      (\<forall>sha d.
                         ghPut e (storePath e) (shallowMerge rdoc (doc w)) (orNull rsha) msg
                           (w2\<lparr>GH_STORE := Some (shallowMerge rdoc (doc w)),
                               GH_STORE_SHA := orNull rsha\<rparr>) = (Inr (GhOk sha d), w4)
                           \<longrightarrow> res = Inr () \<and>
                               w' = w4\<lparr>GH_STORE_SHA := (case orNull sha of None \<Rightarrow> orNull rsha
                                                           | Some s \<Rightarrow> Some s),
                                       GH_STORE_DIRTY := False\<rparr>))"
  proof (intro allI impI)
    fix t w1 w2
    assume p1: "?put = (Inr (GhFail 409 t), w1)"
    have g1: "\<forall>err. ghGet e (storePath e) w1 = (Inl err, w2) \<longrightarrow> res = Inl err \<and> w' = w2"
      using flush_conflict_get_throws [OF d p1] f by auto
    have g2: "\<forall>st' t'. ghGet e (storePath e) w1 = (Inr (GhFail st' t'), w2)
                \<longrightarrow> res = Inl (putFailed 409 t) \<and> w' = w2"
      using flush_conflict_get_fails [OF d p1] f by auto
    have g3: "(\<forall>k. map_of (shallowMerge rdoc (doc w)) k =
                   (case map_of (doc w) k of Some v \<Rightarrow> Some v | None \<Rightarrow> map_of rdoc k)) \<and>
              GH_STORE w' = Some (shallowMerge rdoc (doc w)) \<and>
              (subreqCount w2 < SUBREQ_BUDGET_PER_TICK \<longrightarrow>
                 subreqCount w' = subreqCount w2 + 1 \<and>
                 last (sent w') =
                   GhPutReq (GITHUB_REPO e) (storePath e)
                     \<lparr>pb_message = (if msg = [] then ''bot: update '' @ storePath e else msg),
                      pb_branch = strOr (GITHUB_BRANCH e) ''main'',
                      pb_content = shallowMerge rdoc (doc w),
                      pb_sha = orNull rsha\<rparr>) \<and>
              (\<forall>err.
                 ghPut e (storePath e) (shallowMerge rdoc (doc w)) (orNull rsha) msg
                   (w2\<lparr>GH_STORE := Some (shallowMerge rdoc (doc w)),
                       GH_STORE_SHA := orNull rsha\<rparr>) = (Inl err, w4)
                   \<longrightarrow> res = Inl err \<and> w' = w4) \<and>
              (\<forall>st' t'.
                 ghPut e (storePath e) (shallowMerge rdoc (doc w)) (orNull rsha) msg
                   (w2\<lparr>GH_STORE := Some (shallowMerge rdoc (doc w)),
                       GH_STORE_SHA := orNull rsha\<rparr>) = (Inr (GhFail st' t'), w4)
                   \<longrightarrow> res = Inl (putFailed st' t') \<and> w' = w4) \<and>
              (\<forall>sha d.
                 ghPut e (storePath e) (shallowMerge rdoc (doc w)) (orNull rsha) msg
                   (w2\<lparr>GH_STORE := Some (shallowMerge rdoc (doc w)),
                       GH_STORE_SHA := orNull rsha\<rparr>) = (Inr (GhOk sha d), w4)
                   \<longrightarrow> res = Inr () \<and>
                       w' = w4\<lparr>GH_STORE_SHA := (case orNull sha of None \<Rightarrow> orNull rsha
                                                   | Some s \<Rightarrow> Some s),
                               GH_STORE_DIRTY := False\<rparr>)"
      if g: "ghGet e (storePath e) w1 = (Inr (GhOk rsha (Some rdoc)), w2)" for rsha rdoc w4
    proof -
      let ?m = "shallowMerge rdoc (doc w)"
      let ?w3 = "w2\<lparr>GH_STORE := Some ?m, GH_STORE_SHA := orNull rsha\<rparr>"
      from ghPut_frame [OF p1] ghGet_frame [OF g] have dw: "doc w2 = doc w" by (simp add: doc_def)
      note m = flush_conflict_merge [OF d p1 g f]
      note r = flush_conflict_retry [OF d p1 g, unfolded dw]
      have a: "\<forall>k. map_of ?m k = (case map_of (doc w) k of Some v \<Rightarrow> Some v | None \<Rightarrow> map_of rdoc k)"
        by (simp add: shallowMerge_lookup)
      have b: "GH_STORE w' = Some ?m" using m by simp
      have c: "subreqCount w2 < SUBREQ_BUDGET_PER_TICK \<longrightarrow>
                 subreqCount w' = subreqCount w2 + 1 \<and>
                 last (sent w') =
                   GhPutReq (GITHUB_REPO e) (storePath e)
                     \<lparr>pb_message = (if msg = [] then ''bot: update '' @ storePath e else msg),
                      pb_branch = strOr (GITHUB_BRANCH e) ''main'',
                      pb_content = ?m,
                      pb_sha = orNull rsha\<rparr>"
        using m by (simp add: putRequest_def)
      have p: "\<forall>err. ghPut e (storePath e) ?m (orNull rsha) msg ?w3 = (Inl err, w4)
                 \<longrightarrow> res = Inl err \<and> w' = w4"
        using r f by auto
      have q: "\<forall>st' t'. ghPut e (storePath e) ?m (orNull rsha) msg ?w3 = (Inr (GhFail st' t'), w4)
                 \<longrightarrow> res = Inl (putFailed st' t') \<and> w' = w4"
        using r f by auto
      have s: "\<forall>sha dd. ghPut e (storePath e) ?m (orNull rsha) msg ?w3 = (Inr (GhOk sha dd), w4)
                 \<longrightarrow> res = Inr () \<and>
                     w' = w4\<lparr>GH_STORE_SHA := (case orNull sha of None \<Rightarrow> orNull rsha
                                                 | Some s \<Rightarrow> Some s),
                             GH_STORE_DIRTY := False\<rparr>"
      proof (intro allI impI)
        fix sha dd
        assume p3: "ghPut e (storePath e) ?m (orNull rsha) msg ?w3 = (Inr (GhOk sha dd), w4)"
        from ghPut_frame [OF p3] have "GH_STORE_SHA w4 = orNull rsha" by simp
        with r f p3
        show "res = Inr () \<and>
              w' = w4\<lparr>GH_STORE_SHA := (case orNull sha of None \<Rightarrow> orNull rsha | Some s \<Rightarrow> Some s),
                      GH_STORE_DIRTY := False\<rparr>"
          by (cases "orNull sha") simp_all
      qed
      from a b c p q s show ?thesis by (intro conjI)
    qed
    from g1 g2 g3
    show "(\<forall>err. ghGet e (storePath e) w1 = (Inl err, w2) \<longrightarrow> res = Inl err \<and> w' = w2) \<and>
          (\<forall>st' t'. ghGet e (storePath e) w1 = (Inr (GhFail st' t'), w2)
             \<longrightarrow> res = Inl (putFailed 409 t) \<and> w' = w2) \<and>
          (\<forall>rsha rdoc w4.
             ghGet e (storePath e) w1 = (Inr (GhOk rsha (Some rdoc)), w2) \<longrightarrow>
               (\<forall>k. map_of (shallowMerge rdoc (doc w)) k =
                      (case map_of (doc w) k of Some v \<Rightarrow> Some v | None \<Rightarrow> map_of rdoc k)) \<and>
               GH_STORE w' = Some (shallowMerge rdoc (doc w)) \<and>
               (subreqCount w2 < SUBREQ_BUDGET_PER_TICK \<longrightarrow>
                  subreqCount w' = subreqCount w2 + 1 \<and>
                  last (sent w') =
                    GhPutReq (GITHUB_REPO e) (storePath e)
                      \<lparr>pb_message = (if msg = [] then ''bot: update '' @ storePath e else msg),
                       pb_branch = strOr (GITHUB_BRANCH e) ''main'',
                       pb_content = shallowMerge rdoc (doc w),
                       pb_sha = orNull rsha\<rparr>) \<and>
               (\<forall>err.
                  ghPut e (storePath e) (shallowMerge rdoc (doc w)) (orNull rsha) msg
                    (w2\<lparr>GH_STORE := Some (shallowMerge rdoc (doc w)),
                        GH_STORE_SHA := orNull rsha\<rparr>) = (Inl err, w4)
                    \<longrightarrow> res = Inl err \<and> w' = w4) \<and>
               (\<forall>st' t'.
                  ghPut e (storePath e) (shallowMerge rdoc (doc w)) (orNull rsha) msg
                    (w2\<lparr>GH_STORE := Some (shallowMerge rdoc (doc w)),
                        GH_STORE_SHA := orNull rsha\<rparr>) = (Inr (GhFail st' t'), w4)
                    \<longrightarrow> res = Inl (putFailed st' t') \<and> w' = w4) \<and>
               (\<forall>sha d.
                  ghPut e (storePath e) (shallowMerge rdoc (doc w)) (orNull rsha) msg
                    (w2\<lparr>GH_STORE := Some (shallowMerge rdoc (doc w)),
                        GH_STORE_SHA := orNull rsha\<rparr>) = (Inr (GhOk sha d), w4)
                    \<longrightarrow> res = Inr () \<and>
                        w' = w4\<lparr>GH_STORE_SHA := (case orNull sha of None \<Rightarrow> orNull rsha
                                                    | Some s \<Rightarrow> Some s),
                                GH_STORE_DIRTY := False\<rparr>))"
      by blast
  qed
  from d c1 c2 c3 c4 c5 c6 c7 c8 show ?thesis by blast
qed

lemma flush_conflict_run:
  "storeFlush env0 ''api: watchlist add'' worldConflict =
     (Inr (),
      worldConflict
        \<lparr>GH_STORE := Some [(''watchlist'', JArr [JStr ''1234567'']), (''online_state'', JObj [])],
         GH_STORE_SHA := Some ''sha10'', GH_STORE_DIRTY := False, subreqCount := 3, net := [],
         sent := [putRequest env0 ''cf-cache/store.json'' [(''watchlist'', JArr [JStr ''1234567''])]
                    (Some ''sha0'') ''api: watchlist add'',
                  GhGetReq ''vatpac/store'' ''cf-cache/store.json'' ''main'',
                  putRequest env0 ''cf-cache/store.json''
                    [(''watchlist'', JArr [JStr ''1234567'']), (''online_state'', JObj [])]
                    (Some ''sha9'') ''api: watchlist add'']\<rparr>)"
  by (simp add: api_defs worldConflict_def world_defs store_defs net_defs)

lemma flush_conflict_twice_run:
  "storeFlush env0 ''api: watchlist add'' worldConflictTwice =
     (Inl (Error ''GitHub PUT failed 409: conflict again''),
      worldConflictTwice
        \<lparr>GH_STORE := Some [(''watchlist'', JArr [JStr ''1234567'']), (''online_state'', JObj [])],
         GH_STORE_SHA := Some ''sha9'', subreqCount := 3, net := [],
         sent := [putRequest env0 ''cf-cache/store.json'' [(''watchlist'', JArr [JStr ''1234567''])]
                    (Some ''sha0'') ''api: watchlist add'',
                  GhGetReq ''vatpac/store'' ''cf-cache/store.json'' ''main'',
                  putRequest env0 ''cf-cache/store.json''
                    [(''watchlist'', JArr [JStr ''1234567'']), (''online_state'', JObj [])]
                    (Some ''sha9'') ''api: watchlist add'']\<rparr>)"
  by (simp add: api_defs worldConflictTwice_def world_defs store_defs net_defs num_defs)

theorem storeFlush_protocol_witness:
  "GH_STORE_DIRTY worldConflict \<and>
   fst (storeFlush env0 ''api: watchlist add'' worldConflict) = Inr () \<and>
   \<not> GH_STORE_DIRTY (snd (storeFlush env0 ''api: watchlist add'' worldConflict)) \<and>
   hd (sent (snd (storeFlush env0 ''api: watchlist add'' worldConflict)))
     = GhPutReq ''vatpac/store'' ''cf-cache/store.json''
         \<lparr>pb_message = ''api: watchlist add'', pb_branch = ''main'',
          pb_content = [(''watchlist'', JArr [JStr ''1234567''])], pb_sha = Some ''sha0''\<rparr> \<and>
   subreqCount (snd (storeFlush env0 ''api: watchlist add'' worldConflict)) = 3 \<and>
   GH_STORE_DIRTY worldConflictTwice \<and>
   fst (storeFlush env0 ''api: watchlist add'' worldConflictTwice)
     = Inl (Error ''GitHub PUT failed 409: conflict again'') \<and>
   GH_STORE_DIRTY (snd (storeFlush env0 ''api: watchlist add'' worldConflictTwice))"
proof -
  have d: "GH_STORE_DIRTY worldConflict" by (simp add: worldConflict_def world_defs)
  have d2: "GH_STORE_DIRTY worldConflictTwice" by (simp add: worldConflictTwice_def world_defs)
  note p = storeFlush_protocol [OF flush_conflict_run, THEN conjunct2, THEN mp, OF d]
  note p2 = storeFlush_protocol [OF flush_conflict_twice_run, THEN conjunct2, THEN mp, OF d2]
  from p [THEN conjunct1]
  have a: "\<not> GH_STORE_DIRTY (snd (storeFlush env0 ''api: watchlist add'' worldConflict))"
    by (simp add: flush_conflict_run)
  from p2 [THEN conjunct2, THEN conjunct1]
  have b: "GH_STORE_DIRTY (snd (storeFlush env0 ''api: watchlist add'' worldConflictTwice))"
    by (simp add: flush_conflict_twice_run)
  have c: "fst (storeFlush env0 ''api: watchlist add'' worldConflict) = Inr () \<and>
           hd (sent (snd (storeFlush env0 ''api: watchlist add'' worldConflict)))
             = GhPutReq ''vatpac/store'' ''cf-cache/store.json''
                 \<lparr>pb_message = ''api: watchlist add'', pb_branch = ''main'',
                  pb_content = [(''watchlist'', JArr [JStr ''1234567''])], pb_sha = Some ''sha0''\<rparr> \<and>
           subreqCount (snd (storeFlush env0 ''api: watchlist add'' worldConflict)) = 3"
    unfolding flush_conflict_run by (simp add: putRequest_def env0_def strOr_def orNull_def)
  have e: "fst (storeFlush env0 ''api: watchlist add'' worldConflictTwice)
             = Inl (Error ''GitHub PUT failed 409: conflict again'')"
    by (simp add: flush_conflict_twice_run)
  from d d2 a b c e show ?thesis by simp
qed

section \<open>The watchlist under the API's writes\<close>

lemma kvGetJSON_loaded:
  "GH_STORE w = Some st \<Longrightarrow> kvGetJSON e k fb w = (Inr (storeGet k fb w), w)"
  by (simp add: kvGetJSON_def bindM_def storeLoad_def)

lemma kvPutJSON_loaded:
  "GH_STORE w = Some st \<Longrightarrow> kvPutJSON e k v w = (Inr (), storeSet k v w)"
  by (simp add: kvPutJSON_def bindM_def storeLoad_def)

lemma cacheGet_loaded:
  "GH_STORE w = Some st \<Longrightarrow> \<exists>j. cacheGet e k m w = (Inr j, w)"
  by (simp add: cacheGet_def bindM_def kvGetJSON_loaded Let_def)

lemma isValidMember_keeps_watchlist:
  assumes l: "GH_STORE w = Some st" and r: "isValidMember e cid w = (res, w')"
  shows "\<exists>st'. GH_STORE w' = Some st' \<and> map_of st' KV_WATCHLIST = map_of st KV_WATCHLIST"
proof -
  from cacheGet_loaded [OF l] obtain j where
    c: "cacheGet e (KV_member cid) (Some TTL_MEMBER_7D) w = (Inr j, w)" by blast
  show ?thesis
  proof (cases "\<exists>b. (if truthy j then getProp j ''ok'' else None) = Some (JBool b)")
    case True
    with r c have "w' = w"
      by (auto simp add: isValidMember_def bindM_def returnM_def)
    with l show ?thesis by simp
  next
    case False
    obtain rr w1 where t: "trackedFetch (''https://api.vatsim.net/v2/members/'' @ cid) w = (rr, w1)"
      by (cases "trackedFetch (''https://api.vatsim.net/v2/members/'' @ cid) w")
    from trackedFetch_frame [OF t] l have l1: "GH_STORE w1 = Some st" by simp
    let ?ok = "(case rr of None \<Rightarrow> False | Some res \<Rightarrow> rs_status res = 200)"
    from False r c t
    have "(res, w') = bindM (cachePut e (KV_member cid) [(''ok'', JBool ?ok)]) (\<lambda>u. returnM ?ok) w1"
      by (auto simp add: isValidMember_def bindM_def Let_def split: option.splits json.splits)
    with l1 have "GH_STORE w' = Some (AList.update (KV_member cid)
          (JObj (AList.update ''cached_at'' (JNum (ts w1)) [(''ok'', JBool ?ok)])) st)"
      by (simp add: cachePut_def kvPutJSON_loaded bindM_def returnM_def storeSet_def doc_def)
    then show ?thesis by (simp add: update_conv' KV_member_def KV_WATCHLIST_def)
  qed
qed

lemma watchlistOf_cases:
  assumes "watchlistOf st = Some strs"
  shows "(map_of st KV_WATCHLIST = None \<and> strs = []) \<or>
         map_of st KV_WATCHLIST = Some (JArr (map JStr strs))"
proof (cases "map_of st KV_WATCHLIST")
  case None
  with assms show ?thesis by (simp add: watchlistOf_def)
next
  case (Some j)
  with assms obtain xs where j: "j = JArr xs" and a: "list_all isJStr xs" and s: "strs = map jsString xs"
    by (auto simp add: watchlistOf_def split: json.splits if_splits)
  from a have "map JStr (map jsString xs) = xs"
    by (induction xs) (auto simp add: isJStr_def split: json.splits)
  with Some j s show ?thesis by simp
qed

lemma watchlistOf_strings:
  "map_of st KV_WATCHLIST = Some (JArr (map JStr strs)) \<Longrightarrow> watchlistOf st = Some strs"
  by (simp add: watchlistOf_def list_all_iff isJStr_def comp_def)

lemma setOf_set: "set (setOf xs) = set xs"
  by (induction xs) auto

lemma setOf_distinct: "distinct xs \<Longrightarrow> setOf xs = xs"
proof (induction xs)
  case Nil
  then show ?case by simp
next
  case (Cons x xs)
  then have "filter (\<lambda>y. y \<noteq> x) xs = xs" by (auto simp add: filter_id_conv)
  with Cons show ?case by simp
qed

lemma insertNum_Num: "insertNum (Num a) (map Num ns) = map Num (insort a ns)"
  by (induction ns) simp_all

lemma sortNums_Num: "sortNums (map Num ns) = map Num (sort ns)"
  by (induction ns) (simp_all add: sortNums_def insertNum_Num)

lemma canonical_inj:
  "canonicalDigits a \<Longrightarrow> canonicalDigits b \<Longrightarrow> str_val a = str_val b \<Longrightarrow> a = b"
  using dec_str_val by metis

lemma canonical_dec_short:
  assumes "canonicalDigits s" and "length s \<le> 10"
  shows "length (dec (str_val s)) \<le> 10"
  using assms by (simp add: dec_str_val)

lemma next_watchlist_invariant:
  assumes inv: "watchlistInvariant xs" and c: "canonicalDigits c" "length c \<le> 10"
      and new: "c \<notin> set xs"
  shows "watchlistInvariant (map jsNumString (sortNums (map jsNumber (setOf xs @ [c]))))"
proof -
  let ?zs = "xs @ [c]"
  let ?ns = "map str_val ?zs"
  from inv c have canon: "\<forall>s \<in> set ?zs. canonicalDigits s \<and> length s \<le> 10"
    by (auto simp add: watchlistInvariant_def list_all_iff)
  from inv have dx: "distinct xs" by (simp add: watchlistInvariant_def)
  with new have dz: "distinct ?zs" by simp
  from canon have nz: "map jsNumber ?zs = map Num ?ns"
    by (auto simp add: jsNumber_def canonicalDigits_def)
  from dx have "map jsNumString (sortNums (map jsNumber (setOf xs @ [c])))
      = map jsNumString (sortNums (map jsNumber ?zs))"
    by (simp add: setOf_distinct)
  also have "\<dots> = map jsNumString (map Num (sort ?ns))"
    unfolding nz by (simp only: sortNums_Num)
  also have "\<dots> = map dec (sort ?ns)" by (simp add: comp_def)
  finally have eq: "map jsNumString (sortNums (map jsNumber (setOf xs @ [c]))) = map dec (sort ?ns)" .
  have inj: "inj_on str_val (set ?zs)"
    using canon by (auto intro!: inj_onI canonical_inj)
  with dz have dn: "distinct ?ns" by (simp add: distinct_map)
  have vals: "map str_val (map dec (sort ?ns)) = sort ?ns"
    by (simp add: comp_def str_val_dec)
  from dn have ss: "sorted_wrt (<) (sort ?ns)" by (simp add: strict_sorted_iff)
  have mem: "\<forall>n \<in> set (sort ?ns). length (dec n) \<le> 10"
  proof
    fix n assume "n \<in> set (sort ?ns)"
    then obtain s where "s \<in> set ?zs" "n = str_val s" by auto
    with canon show "length (dec n) \<le> 10" by (auto simp add: canonical_dec_short)
  qed
  have "inj dec" by (rule inj_on_inverseI [of _ str_val]) (rule str_val_dec)
  then have "inj_on dec (set (sort ?ns))" by (rule inj_on_subset) simp
  with dn have "distinct (map dec (sort ?ns))" by (simp only: distinct_map distinct_sort)
  with ss vals mem show ?thesis
    unfolding eq watchlistInvariant_def by (simp add: list_all_iff dec_canonical)
qed


lemma watchlistOf_same:
  "map_of st' KV_WATCHLIST = map_of st KV_WATCHLIST \<Longrightarrow> watchlistOf st' = watchlistOf st"
  by (simp add: watchlistOf_def)

lemma watchlist_read:
  assumes "watchlistOf st = Some xs"
  shows "(case map_of st KV_WATCHLIST of None \<Rightarrow> JArr [] | Some v \<Rightarrow> v) = JArr (map JStr xs)"
  using watchlistOf_cases [OF assms] by auto

lemma mapString_strings: "mapString name (JArr (map JStr xs)) = Inr xs"
  by (simp add: mapString_def comp_def)

lemma addToWatchlist_keeps_invariant:
  assumes l: "GH_STORE w = Some st" and wl: "watchlistOf st = Some xs"
      and inv: "watchlistInvariant xs"
  shows "\<exists>ys. watchlistOf (doc (snd (addToWatchlist req e w))) = Some ys \<and> watchlistInvariant ys"
proof -
  let ?body = "(case rq_json req of None \<Rightarrow> JObj [] | Some b \<Rightarrow> b)"
  from l wl inv have same: "snd (addToWatchlist req e w) = w \<Longrightarrow> ?thesis"
    by (auto simp add: doc_def)
  show ?thesis
  proof (cases "?body = JNull \<or> (\<forall>c. canonicalCID (getProp ?body ''cid'') \<noteq> Inr (Some c))")
    case True
    then have "snd (addToWatchlist req e w) = w"
      using canonicalCID_nonempty
      by (cases "canonicalCID (getProp ?body ''cid'')")
         (auto simp add: addToWatchlist_def throwM_def returnM_def split: json.splits option.splits)
    then show ?thesis by (rule same)
  next
    case False
    then obtain cid where nn: "?body \<noteq> JNull"
      and cc: "canonicalCID (getProp ?body ''cid'') = Inr (Some cid)" by auto
    from canonicalCID_nonempty [OF cc] have ne: "cid \<noteq> []" .
    from canonicalCID_result [OF cc] have can: "canonicalDigits cid" "length cid \<le> 10" by simp_all
    obtain rv w1 where v: "isValidMember e cid w = (rv, w1)" by (cases "isValidMember e cid w")
    from isValidMember_keeps_watchlist [OF l v] obtain st1 where
      l1: "GH_STORE w1 = Some st1" and k1: "map_of st1 KV_WATCHLIST = map_of st KV_WATCHLIST"
      by blast
    from watchlistOf_same [OF k1] wl have wl1: "watchlistOf st1 = Some xs" by simp
    from l1 wl1 inv have same1: "snd (addToWatchlist req e w) = w1 \<Longrightarrow> ?thesis"
      by (auto simp add: doc_def)
    from l1 watchlist_read [OF wl1]
    have rd: "kvGetJSON e KV_WATCHLIST (JArr []) w1 = (Inr (JArr (map JStr xs)), w1)"
      by (simp add: kvGetJSON_loaded storeGet_def doc_def)
    from inv have dx: "setOf xs = xs" by (simp add: watchlistInvariant_def setOf_distinct)
    show ?thesis
    proof (cases "rv = Inr True \<and> cid \<notin> set xs")
      case False
      with nn cc ne v rd dx have "snd (addToWatchlist req e w) = w1"
        by (cases rv)
           (auto simp add: addToWatchlist_def bindM_def throwM_def returnM_def mapString_strings
                 Let_def split: json.splits)
      then show ?thesis by (rule same1)
    next
      case True
      let ?next = "map jsNumString (sortNums (map jsNumber (setOf xs @ [cid])))"
      let ?w2 = "storeSet KV_WATCHLIST (JArr (map JStr ?next)) w1"
      obtain rf w3 where fl: "storeFlush e ''api: watchlist add'' ?w2 = (rf, w3)"
        by (cases "storeFlush e ''api: watchlist add'' ?w2")
      have k2: "map_of (doc ?w2) KV_WATCHLIST = Some (JArr (map JStr ?next))"
        by (simp add: storeSet_def doc_def update_conv')
      from flush_keeps_local_keys [OF fl k2]
      have k3: "map_of (doc w3) KV_WATCHLIST = Some (JArr (map JStr ?next))" by simp
      from l1 have put: "kvPutJSON e KV_WATCHLIST (JArr (map JStr ?next)) w1 = (Inr (), ?w2)"
        by (rule kvPutJSON_loaded)
      from True nn cc ne v rd dx put fl have "snd (addToWatchlist req e w) = w3"
        by (cases rf)
           (auto simp add: addToWatchlist_def bindM_def throwM_def returnM_def mapString_strings
                 Let_def split: json.splits)
      moreover from True have "watchlistInvariant ?next"
        by (intro next_watchlist_invariant inv can) simp
      ultimately show ?thesis using watchlistOf_strings [OF k3] by auto
    qed
  qed
qed


lemma removeFromWatchlist_outcome:
  assumes l: "GH_STORE w = Some st" and wl: "watchlistOf st = Some xs"
  shows "(cid \<notin> set xs \<longrightarrow>
            removeFromWatchlist cid e w =
              (Inr (jsonResponse (JObj [(''error'', JStr ''CID not found on watchlist'')]) 404 e), w)) \<and>
         (\<exists>ys. watchlistOf (doc (snd (removeFromWatchlist cid e w))) = Some ys \<and>
               (ys = xs \<or> ys = filter (\<lambda>s. s \<noteq> cid) xs))"
proof -
  from l watchlist_read [OF wl]
  have rd: "kvGetJSON e KV_WATCHLIST (JArr []) w = (Inr (JArr (map JStr xs)), w)"
    by (simp add: kvGetJSON_loaded storeGet_def doc_def)
  have flt: "filter (\<lambda>x. jsString x \<noteq> cid) (map JStr xs) = map JStr (filter (\<lambda>s. s \<noteq> cid) xs)"
    by (simp add: filter_map comp_def)
  have len: "length (filter (\<lambda>s. s \<noteq> cid) xs) = length xs \<longleftrightarrow> cid \<notin> set xs"
  proof (cases "cid \<in> set xs")
    case True
    then have "length (filter (\<lambda>s. s \<noteq> cid) xs) < length xs"
      by (intro length_filter_less [of cid]) simp_all
    with True show ?thesis by simp
  next
    case False
    then have "filter (\<lambda>s. s \<noteq> cid) xs = xs" by (auto simp add: filter_id_conv)
    with False show ?thesis by simp
  qed
  show ?thesis
  proof (cases "cid \<in> set xs")
    case False
    with rd flt len have "removeFromWatchlist cid e w =
        (Inr (jsonResponse (JObj [(''error'', JStr ''CID not found on watchlist'')]) 404 e), w)"
      by (simp add: removeFromWatchlist_def bindM_def returnM_def Let_def)
    with l wl False show ?thesis by (auto simp add: doc_def)
  next
    case True
    let ?next = "filter (\<lambda>s. s \<noteq> cid) xs"
    let ?w2 = "storeSet KV_WATCHLIST (JArr (map JStr ?next)) w"
    obtain rf w3 where fl: "storeFlush e ''api: watchlist remove'' ?w2 = (rf, w3)"
      by (cases "storeFlush e ''api: watchlist remove'' ?w2")
    have k2: "map_of (doc ?w2) KV_WATCHLIST = Some (JArr (map JStr ?next))"
      by (simp add: storeSet_def doc_def update_conv')
    from flush_keeps_local_keys [OF fl k2]
    have k3: "map_of (doc w3) KV_WATCHLIST = Some (JArr (map JStr ?next))" by simp
    from l have put: "kvPutJSON e KV_WATCHLIST (JArr (map JStr ?next)) w = (Inr (), ?w2)"
      by (rule kvPutJSON_loaded)
    from True rd flt len put fl have "snd (removeFromWatchlist cid e w) = w3"
      by (cases rf)
         (simp_all add: removeFromWatchlist_def bindM_def returnM_def Let_def)
    with watchlistOf_strings [OF k3] True show ?thesis by simp
  qed
qed

lemma filter_keeps_invariant:
  "watchlistInvariant xs \<Longrightarrow> watchlistInvariant (filter P xs)"
  by (auto simp add: watchlistInvariant_def list_all_iff sorted_wrt_map sorted_wrt_filter)

lemma handleAPI_world: "snd (handleAPI hs req e w) = snd (route hs req e w)"
  by (simp add: handleAPI_def split: prod.splits sum.splits)

lemma lastSegment_digits:
  "list_all is_digit ds \<Longrightarrow> lastSegment (''/api/watchlist/'' @ ds) = ds"
proof -
  assume d: "list_all is_digit ds"
  then have "\<forall>c \<in> set (rev ds). c \<noteq> CHR ''/''" by (auto simp add: list_all_iff is_digit_def)
  then have "takeWhile (\<lambda>c. c \<noteq> CHR ''/'') (rev ds @ rev ''/api/watchlist/'') = rev ds"
    by (subst takeWhile_append2) simp_all
  then show ?thesis by (simp add: lastSegment_def)
qed

lemma matchesWatchlistCid_iff:
  "matchesWatchlistCid path \<longleftrightarrow>
     (\<exists>ds. path = ''/api/watchlist/'' @ ds \<and> ds \<noteq> [] \<and> list_all is_digit ds)"
proof
  assume m: "matchesWatchlistCid path"
  then have "path = ''/api/watchlist/'' @ drop (length ''/api/watchlist/'') path"
    unfolding matchesWatchlistCid_def startsWith_def
    by (metis append_take_drop_id)
  with m show "\<exists>ds. path = ''/api/watchlist/'' @ ds \<and> ds \<noteq> [] \<and> list_all is_digit ds"
    unfolding matchesWatchlistCid_def by blast
next
  assume "\<exists>ds. path = ''/api/watchlist/'' @ ds \<and> ds \<noteq> [] \<and> list_all is_digit ds"
  then show "matchesWatchlistCid path"
    by (auto simp add: matchesWatchlistCid_def startsWith_def)
qed

lemma route_delete:
  "list_all is_digit ds \<Longrightarrow> ds \<noteq> [] \<Longrightarrow>
   route hs \<lparr>rq_path = ''/api/watchlist/'' @ ds, rq_method = ''DELETE'', rq_json = b\<rparr> e
     = removeFromWatchlist ds e"
proof -
  assume d: "list_all is_digit ds" "ds \<noteq> []"
  then have m: "matchesWatchlistCid (''/api/watchlist/'' @ ds)"
    using matchesWatchlistCid_iff by blast
  from d have ls: "lastSegment (''/api/watchlist/'' @ ds) = ds" by (simp only: lastSegment_digits)
  from m ls show ?thesis by (simp add: route_def Let_def)
qed

lemma route_post:
  "rq_path req = ''/api/watchlist'' \<Longrightarrow> rq_method req = ''POST'' \<Longrightarrow>
   route hs req e = addToWatchlist req e"
  by (simp add: route_def)


text \<open>
  Claim C5, as amended. When the stored watchlist is well formed before the write
  (the empty or absent watchlist is), then after \<^verbatim>\<open>POST /api/watchlist\<close> and after
  \<^verbatim>\<open>DELETE /api/watchlist/:cid\<close>, however the request ends, the stored watchlist is
  duplicate-free, in ascending numeric order, and every element is the decimal
  representation of a number: digits only, 1 to 10 characters, no leading zero
  except in \<open>''0''\<close> itself.
\<close>

theorem watchlist_writes_keep_invariant:
  assumes l: "GH_STORE w = Some st" and wl: "watchlistOf st = Some xs"
      and inv: "watchlistInvariant xs"
      and rq: "(rq_path req = ''/api/watchlist'' \<and> rq_method req = ''POST'') \<or>
               (\<exists>ds. req = \<lparr>rq_path = ''/api/watchlist/'' @ ds, rq_method = ''DELETE'', rq_json = b\<rparr> \<and>
                     ds \<noteq> [] \<and> list_all is_digit ds)"
  shows "\<exists>ys. watchlistOf (doc (snd (handleAPI hs req e w))) = Some ys \<and>
              distinct ys \<and> sorted_wrt (<) (map str_val ys) \<and>
              list_all (\<lambda>s. s \<noteq> [] \<and> list_all is_digit s \<and> (s = ''0'' \<or> hd s \<noteq> CHR ''0'') \<and>
                            length s \<le> 10) ys"
proof -
  have "\<exists>ys. watchlistOf (doc (snd (handleAPI hs req e w))) = Some ys \<and> watchlistInvariant ys"
    using rq
  proof
    assume "rq_path req = ''/api/watchlist'' \<and> rq_method req = ''POST''"
    then have "route hs req e = addToWatchlist req e" by (simp add: route_post)
    with addToWatchlist_keeps_invariant [OF l wl inv, of req e]
    show ?thesis by (simp add: handleAPI_world)
  next
    assume "\<exists>ds. req = \<lparr>rq_path = ''/api/watchlist/'' @ ds, rq_method = ''DELETE'', rq_json = b\<rparr> \<and>
                 ds \<noteq> [] \<and> list_all is_digit ds"
    then obtain ds where r: "req = \<lparr>rq_path = ''/api/watchlist/'' @ ds, rq_method = ''DELETE'', rq_json = b\<rparr>"
      and d: "ds \<noteq> []" "list_all is_digit ds" by blast
    have "route hs req e = removeFromWatchlist ds e" unfolding r by (rule route_delete [OF d(2) d(1)])
    moreover from removeFromWatchlist_outcome [OF l wl, of ds e] obtain ys where
      "watchlistOf (doc (snd (removeFromWatchlist ds e w))) = Some ys"
      "ys = xs \<or> ys = filter (\<lambda>s. s \<noteq> ds) xs" by blast
    moreover from inv have "watchlistInvariant (filter (\<lambda>s. s \<noteq> ds) xs)"
      by (rule filter_keeps_invariant)
    ultimately show ?thesis using inv by (auto simp add: handleAPI_world)
  qed
  then show ?thesis
    by (auto simp add: watchlistInvariant_def canonicalDigits_def list_all_iff)
qed

lemma insert_second_run:
  "watchlistOf (doc (snd (handleAPI handlersDown (postCid (JStr ''800000'')) env0 worldOne)))
     = Some [''800000'', ''1234567'']"
  by (simp add: api_defs postCid_def worldOne_def world_defs store_defs net_defs num_defs key_defs
      watchlistOf_def isJStr_def)

theorem watchlist_writes_keep_invariant_witness:
  "watchlistOf (doc worldOne) = Some [''1234567''] \<and>
   watchlistOf (doc (snd (handleAPI handlersDown (postCid (JStr ''800000'')) env0 worldOne)))
     = Some [''800000'', ''1234567''] \<and>
   sorted_wrt (<) (map str_val [''800000'', ''1234567''])"
proof -
  have l: "GH_STORE worldOne = Some [(''watchlist'', JArr [JStr ''1234567''])]"
    by (simp add: worldOne_def world_defs)
  have wl: "watchlistOf [(''watchlist'', JArr [JStr ''1234567''])] = Some [''1234567'']"
    by (simp add: watchlistOf_def isJStr_def key_defs)
  have inv: "watchlistInvariant [''1234567'']"
    by (simp add: watchlistInvariant_def canonicalDigits_def is_digit_def)
  have rq: "(rq_path (postCid (JStr ''800000'')) = ''/api/watchlist'' \<and>
             rq_method (postCid (JStr ''800000'')) = ''POST'') \<or>
            (\<exists>ds. postCid (JStr ''800000'')
                     = \<lparr>rq_path = ''/api/watchlist/'' @ ds, rq_method = ''DELETE'', rq_json = None\<rparr> \<and>
                  ds \<noteq> [] \<and> list_all is_digit ds)"
    by (simp add: postCid_def)
  from watchlist_writes_keep_invariant [OF l wl inv rq, of handlersDown env0]
  have "sorted_wrt (<) (map str_val [''800000'', ''1234567''])"
    unfolding insert_second_run by simp
  moreover from l wl have "watchlistOf (doc worldOne) = Some [''1234567'']"
    by (simp add: doc_def)
  ultimately show ?thesis by (simp only: insert_second_run simp_thms)
qed

text \<open>
  The claim as stated fails on the lower bound of three characters: the digits are
  counted before the leading zeros are stripped, so \<^verbatim>\<open>POST {cid: "0012"}\<close>, once the
  member lookup answers 200, stores the two-character element \<open>''12''\<close>.
\<close>

theorem insert_stores_two_digit_cid:
  "map_of (doc worldEmpty) KV_WATCHLIST = None \<and>
   ar_status (fst (handleAPI handlersDown (postCid (JStr ''0012'')) env0 worldEmpty)) = 200 \<and>
   map_of (doc (snd (handleAPI handlersDown (postCid (JStr ''0012'')) env0 worldEmpty))) KV_WATCHLIST
     = Some (JArr [JStr ''12''])"
  by (simp add: api_defs postCid_def worldEmpty_def world_defs store_defs net_defs num_defs key_defs)

section \<open>Removal compares raw strings\<close>

text \<open>
  Claim C9. A \<^verbatim>\<open>DELETE\<close> reaches the removal only on a path \<^verbatim>\<open>/api/watchlist/\<close> followed
  by digits, any other \<^verbatim>\<open>DELETE\<close> is answered 404 \<^verbatim>\<open>Not Found\<close>. The removal compares
  the digits of the path with the stored strings as they are: digits that are not a
  stored element are answered 404 with nothing changed. So for a stored canonical CID,
  the same digits behind one or more leading zeros are answered 404 and the watchlist,
  like the rest of the state, stays as it was.
\<close>

theorem delete_with_leading_zeros_is_404:
  assumes l: "GH_STORE w = Some st" and wl: "watchlistOf st = Some xs"
      and can: "list_all canonicalDigits xs"
  shows "(rq_method req = ''DELETE'' \<and>
          \<not> (\<exists>ds. rq_path req = ''/api/watchlist/'' @ ds \<and> ds \<noteq> [] \<and> list_all is_digit ds)
            \<longrightarrow> handleAPI hs req e w = (jsonResponse (JObj [(''error'', JStr ''Not Found'')]) 404 e, w)) \<and>
         (ds \<noteq> [] \<and> list_all is_digit ds \<and> ds \<notin> set xs
            \<longrightarrow> handleAPI hs \<lparr>rq_path = ''/api/watchlist/'' @ ds, rq_method = ''DELETE'', rq_json = b\<rparr> e w
                  = (jsonResponse (JObj [(''error'', JStr ''CID not found on watchlist'')]) 404 e, w)) \<and>
         (c \<in> set xs \<and> 0 < n
            \<longrightarrow> handleAPI hs \<lparr>rq_path = ''/api/watchlist/'' @ replicate n CHR ''0'' @ c,
                               rq_method = ''DELETE'', rq_json = b\<rparr> e w
                  = (jsonResponse (JObj [(''error'', JStr ''CID not found on watchlist'')]) 404 e, w))"
proof (intro conjI impI)
  assume a: "rq_method req = ''DELETE'' \<and>
          \<not> (\<exists>ds. rq_path req = ''/api/watchlist/'' @ ds \<and> ds \<noteq> [] \<and> list_all is_digit ds)"
  then have "\<not> matchesWatchlistCid (rq_path req)" by (simp add: matchesWatchlistCid_iff)
  with a have "route hs req e w = (Inr (jsonResponse (JObj [(''error'', JStr ''Not Found'')]) 404 e), w)"
    by (simp add: route_def returnM_def Let_def)
  then show "handleAPI hs req e w = (jsonResponse (JObj [(''error'', JStr ''Not Found'')]) 404 e, w)"
    by (simp add: handleAPI_def)
next
  have miss: "handleAPI hs \<lparr>rq_path = ''/api/watchlist/'' @ z, rq_method = ''DELETE'', rq_json = b\<rparr> e w
                  = (jsonResponse (JObj [(''error'', JStr ''CID not found on watchlist'')]) 404 e, w)"
    if z: "z \<noteq> []" "list_all is_digit z" "z \<notin> set xs" for z
  proof -
    have "route hs \<lparr>rq_path = ''/api/watchlist/'' @ z, rq_method = ''DELETE'', rq_json = b\<rparr> e
                   = removeFromWatchlist z e" by (rule route_delete [OF z(2) z(1)])
    with removeFromWatchlist_outcome [OF l wl, of z e] z show ?thesis
      by (simp add: handleAPI_def)
  qed
  { assume "ds \<noteq> [] \<and> list_all is_digit ds \<and> ds \<notin> set xs"
    then show "handleAPI hs \<lparr>rq_path = ''/api/watchlist/'' @ ds, rq_method = ''DELETE'', rq_json = b\<rparr> e w
                  = (jsonResponse (JObj [(''error'', JStr ''CID not found on watchlist'')]) 404 e, w)"
      using miss by blast }
  { assume a: "c \<in> set xs \<and> 0 < n"
    let ?z = "replicate n CHR ''0'' @ c"
    from a can have cc: "canonicalDigits c" by (simp add: list_all_iff)
    from a obtain m where n: "n = Suc m" by (cases n) auto
    have "is_digit CHR ''0''" by (simp add: is_digit_def)
    with cc have "list_all is_digit ?z"
      by (auto simp add: canonicalDigits_def list_all_iff)
    moreover have "?z \<noteq> []" using n by simp
    moreover have "?z \<notin> set xs"
    proof
      assume "?z \<in> set xs"
      with can have "canonicalDigits ?z" by (simp add: list_all_iff)
      with n cc show False by (simp add: canonicalDigits_def)
    qed
    ultimately show "handleAPI hs \<lparr>rq_path = ''/api/watchlist/'' @ replicate n CHR ''0'' @ c,
                               rq_method = ''DELETE'', rq_json = b\<rparr> e w
                  = (jsonResponse (JObj [(''error'', JStr ''CID not found on watchlist'')]) 404 e, w)"
      using miss by blast }
qed

theorem delete_with_leading_zeros_is_404_witness:
  "handleAPI handlersDown (deleteCid ''01234567'') env0 worldOne
     = (jsonResponse (JObj [(''error'', JStr ''CID not found on watchlist'')]) 404 env0, worldOne)"
proof -
  have l: "GH_STORE worldOne = Some [(''watchlist'', JArr [JStr ''1234567''])]"
    by (simp add: worldOne_def world_defs)
  have wl: "watchlistOf [(''watchlist'', JArr [JStr ''1234567''])] = Some [''1234567'']"
    by (simp add: watchlistOf_def isJStr_def key_defs)
  have can: "list_all canonicalDigits [''1234567'']"
    by (simp add: canonicalDigits_def is_digit_def)
  from delete_with_leading_zeros_is_404 [OF l wl can, of _ handlersDown env0 _ None "''1234567''" 1]
  show ?thesis by (simp add: deleteCid_def)
qed

section \<open>What a sweep deletes\<close>

lemma storeDel_doc:
  "GH_STORE w = Some st \<Longrightarrow> GH_STORE (storeDel k w) = Some (AList.delete k st)"
proof (cases "map_of st k")
  case None
  assume l: "GH_STORE w = Some st"
  from None have "k \<notin> fst ` set st" by (simp add: map_of_eq_None_iff)
  then have "AList.delete k st = st" by (induction st) auto
  with l None show ?thesis by (simp add: storeDel_def doc_def)
next
  case (Some v)
  assume "GH_STORE w = Some st"
  with Some show ?thesis by (simp add: storeDel_def doc_def)
qed

lemma fold_storeDel_lookup:
  "GH_STORE w = Some st \<Longrightarrow>
   \<exists>st'. GH_STORE (fold storeDel ks w) = Some st' \<and>
         (\<forall>k. map_of st' k = (if k \<in> set ks then None else map_of st k))"
proof (induction ks arbitrary: w st)
  case Nil
  then show ?case by simp
next
  case (Cons a ks)
  from storeDel_doc [OF Cons.prems] have "GH_STORE (storeDel a w) = Some (AList.delete a st)" .
  from Cons.IH [OF this] show ?case by (auto simp add: delete_conv')
qed

lemma sweeps_present: "sweeps t st k \<Longrightarrow> k \<in> set (map fst st)"
proof -
  assume "sweeps t st k"
  then obtain v where "map_of st k = Some v"
    by (auto simp add: sweeps_def split: if_splits option.splits)
  then have "(k, v) \<in> set st" by (rule map_of_SomeD)
  then show ?thesis by force
qed

lemma cleanup_lookup:
  assumes ld: "storeLoad e w = (r0, w0)" and run: "maybeCleanupStore e w = (res, w')"
  shows "doc w' = doc w0 \<or>
         (\<forall>k. map_of (doc w') k =
                (if k = STORE_CLEANUP_KEY then Some (JNum (ts w0))
                 else if sweeps (ts w0) (doc w0) k then None else map_of (doc w0) k))"
proof (cases r0)
  case (Inl err)
  with ld run have "w' = w0" by (simp add: maybeCleanupStore_def bindM_def)
  then show ?thesis by simp
next
  case (Inr u)
  let ?t = "ts w0"
  let ?ks = "filter (sweeps ?t (doc w0)) (map fst (doc w0))"
  show ?thesis
  proof (cases "w' = w0")
    case True
    then show ?thesis by simp
  next
    case False
    with ld run Inr have w': "w' = storeSet STORE_CLEANUP_KEY (JNum ?t) (fold storeDel ?ks w0)"
      by (auto simp add: maybeCleanupStore_def bindM_def Let_def split: if_splits)
    from ld Inr obtain st where l0: "GH_STORE w0 = Some st"
      by (auto simp add: storeLoad_def bindM_def throwM_def
               split: if_splits prod.splits sum.splits gh_result.splits)
    from fold_storeDel_lookup [OF l0, of ?ks] obtain st' where
      s': "GH_STORE (fold storeDel ?ks w0) = Some st'"
      and lk: "\<forall>k. map_of st' k = (if k \<in> set ?ks then None else map_of st k)" by blast
    from l0 have d0: "doc w0 = st" by (simp add: doc_def)
    have "map_of (doc w') k =
            (if k = STORE_CLEANUP_KEY then Some (JNum ?t)
             else if sweeps ?t (doc w0) k then None else map_of (doc w0) k)" for k
      using w' s' lk d0 sweeps_present [of ?t st k]
      by (auto simp add: storeSet_def doc_def update_conv')
    then show ?thesis by blast
  qed
qed


lemma sweeps_expired:
  assumes "sweeps t st k"
  shows "\<exists>fs. map_of st k = Some (JObj fs) \<and>
          ((\<exists>c. map_of fs ''cached_at'' = Some (JNum c) \<and> t - c > 2 * maxAgeFor k) \<or>
           (\<exists>x. map_of fs ''expiresAt'' = Some (JNum x) \<and> x < t))"
proof -
  from assms obtain v where v: "map_of st k = Some v"
    by (auto simp add: sweeps_def split: if_splits option.splits)
  show ?thesis
  proof (cases v)
    case (JObj fs)
    with assms v show ?thesis
      by (auto simp add: sweeps_def expiresAtPassed_def mult.commute
               split: if_splits option.splits json.splits)
  qed (use assms v in \<open>auto simp add: sweeps_def expiresAtPassed_def split: if_splits\<close>)
qed

lemma longLived_not_swept:
  assumes "map_of st k = Some v" and "longLived k v"
  shows "\<not> sweeps t st k \<and> k \<noteq> STORE_CLEANUP_KEY"
proof -
  from assms(2) have shape: "isArray v \<or> isStateMap v \<or> isJob v"
    and key: "k \<noteq> STORE_CLEANUP_KEY"
    by (auto simp add: longLived_def key_defs startsWith_def split: if_splits)
  have "\<not> sweeps t st k"
  proof
    assume "sweeps t st k"
    from sweeps_expired [OF this] assms(1) obtain fs where fs: "v = JObj fs"
      and age: "(\<exists>c. map_of fs ''cached_at'' = Some (JNum c)) \<or> (\<exists>x. map_of fs ''expiresAt'' = Some (JNum x))"
      by auto
    from age obtain f n where f: "map_of fs f = Some (JNum n)" "f = ''cached_at'' \<or> f = ''expiresAt''"
      by auto
    then have mem: "(f, JNum n) \<in> set fs" by (auto dest: map_of_SomeD)
    from shape fs have "isStateMap (JObj fs) \<or> isJob (JObj fs)" by (auto simp add: isArray_def)
    then show False
    proof
      assume "isStateMap (JObj fs)"
      with mem have "isRecord (JNum n)" by (auto simp add: isStateMap_def list_all_iff)
      then show False by (simp add: isRecord_def)
    next
      assume "isJob (JObj fs)"
      with mem have "f \<in> set [''scope'', ''cids'', ''cursor'', ''total'', ''created_at'']"
        by (auto simp add: isJob_def list_all_iff)
      with f(2) show False by auto
    qed
  qed
  with key show ?thesis by simp
qed

lemma maxAgeFor_value:
  "maxAgeFor k = (if startsWith k ''member:'' then 7 * 24 * 60 * 60 else 24 * 60 * 60)"
proof -
  have a: "startsWith k ''member:'' \<Longrightarrow> \<not> startsWith k ''rating:''"
    by (auto simp add: startsWith_def)
  have b: "startsWith k ''member:'' \<Longrightarrow> \<not> startsWith k ''division:''"
  proof
    assume m: "startsWith k ''member:''" and d: "startsWith k ''division:''"
    from d have "take (length ''division:'') k = ''division:''" by (simp only: startsWith_def)
    then have "k = ''division:'' @ drop (length ''division:'') k"
      by (metis append_take_drop_id)
    then obtain r where "k = ''division:'' @ r" ..
    with m show False by (simp add: startsWith_def)
  qed
  show ?thesis
    using a b
    by (auto simp add: maxAgeFor_def ttlMap_def TTL_RATING_24H_def TTL_DIVISION_24H_def
          TTL_MEMBER_7D_def TTL_AUDIT_24H_def COOLDOWN_online_def COOLDOWN_offline_def
          COOLDOWN_flag_def)
qed

text \<open>
  Claim C8. Whatever a cleanup sweep deletes was an object-valued entry with a numeric
  \<^verbatim>\<open>cached_at\<close> more than twice the TTL of its key in the past (seven days for keys
  under \<^verbatim>\<open>member:\<close>, a day for all others) or with a numeric \<^verbatim>\<open>expiresAt\<close> in the past.
  The long-lived keys \<^verbatim>\<open>watchlist\<close>, \<^verbatim>\<open>online_state\<close>, \<^verbatim>\<open>audit:job\<close> and
  \<^verbatim>\<open>audit:partial:<scope>\<close>, holding values of their shapes, keep their values through
  every sweep, whatever timestamps lie in them, and \<^verbatim>\<open>_last_cleanup\<close> is never deleted.
\<close>

theorem sweep_deletes_only_expired_entries:
  assumes ld: "storeLoad e w = (r0, w0)" and run: "maybeCleanupStore e w = (res, w')"
  shows "(\<forall>k v. map_of (doc w0) k = Some v \<and> map_of (doc w') k = None \<longrightarrow>
            (\<exists>fs. v = JObj fs \<and>
               ((\<exists>c. map_of fs ''cached_at'' = Some (JNum c) \<and> ts w0 - c > 2 * maxAgeFor k) \<or>
                (\<exists>x. map_of fs ''expiresAt'' = Some (JNum x) \<and> x < ts w0)))) \<and>
         (\<forall>k. maxAgeFor k = (if startsWith k ''member:'' then 7 * 24 * 60 * 60 else 24 * 60 * 60)) \<and>
         (\<forall>k v. map_of (doc w0) k = Some v \<and> longLived k v \<longrightarrow> map_of (doc w') k = Some v) \<and>
         (\<forall>v. map_of (doc w0) STORE_CLEANUP_KEY = Some v
               \<longrightarrow> (\<exists>v'. map_of (doc w') STORE_CLEANUP_KEY = Some v'))"
proof -
  note lk = cleanup_lookup [OF ld run]
  have one: "\<exists>fs. v = JObj fs \<and>
               ((\<exists>c. map_of fs ''cached_at'' = Some (JNum c) \<and> ts w0 - c > 2 * maxAgeFor k) \<or>
                (\<exists>x. map_of fs ''expiresAt'' = Some (JNum x) \<and> x < ts w0))"
    if "map_of (doc w0) k = Some v" "map_of (doc w') k = None" for k v
  proof -
    from lk that have "sweeps (ts w0) (doc w0) k" by (auto split: if_splits)
    from sweeps_expired [OF this] that(1) show ?thesis by auto
  qed
  have two: "map_of (doc w') k = Some v" if "map_of (doc w0) k = Some v" "longLived k v" for k v
    using lk longLived_not_swept [OF that, of "ts w0"] that(1) by auto
  have three: "\<exists>v'. map_of (doc w') STORE_CLEANUP_KEY = Some v'"
    if "map_of (doc w0) STORE_CLEANUP_KEY = Some v" for v
    using lk that by auto
  from one two three maxAgeFor_value show ?thesis by blast
qed

lemma sweep_run:
  "map fst (doc (snd (maybeCleanupStore env0 worldSweep)))
     = [''watchlist'', ''online_state'', ''audit:job'', ''audit:partial:visiting'',
        ''_last_cleanup'', ''member:1234567'']"
  by (simp add: tick_defs worldSweep_def world_defs store_defs key_defs
        TTL_RATING_24H_def TTL_DIVISION_24H_def TTL_MEMBER_7D_def TTL_AUDIT_24H_def
        COOLDOWN_online_def COOLDOWN_offline_def COOLDOWN_flag_def num_defs)

theorem sweep_deletes_only_expired_entries_witness:
  "map_of (doc worldSweep) KV_JOB
     = Some (JObj [(''scope'', JStr ''visiting''), (''cids'', JArr [JStr ''1234567'']),
                   (''cursor'', JNum 0), (''total'', JNum 1), (''created_at'', JNum 1711929600)]) \<and>
   map_of (doc (snd (maybeCleanupStore env0 worldSweep))) KV_JOB = map_of (doc worldSweep) KV_JOB \<and>
   map fst (doc (snd (maybeCleanupStore env0 worldSweep)))
     = [''watchlist'', ''online_state'', ''audit:job'', ''audit:partial:visiting'',
        ''_last_cleanup'', ''member:1234567'']"
proof -
  have ld: "storeLoad env0 worldSweep = (Inr (), worldSweep)"
    by (simp add: storeLoad_def worldSweep_def world_defs)
  obtain res w' where run: "maybeCleanupStore env0 worldSweep = (res, w')"
    by (cases "maybeCleanupStore env0 worldSweep")
  have j: "map_of (doc worldSweep) KV_JOB
     = Some (JObj [(''scope'', JStr ''visiting''), (''cids'', JArr [JStr ''1234567'']),
                   (''cursor'', JNum 0), (''total'', JNum 1), (''created_at'', JNum 1711929600)])"
    by (simp add: worldSweep_def world_defs doc_def key_defs)
  have s: "longLived KV_JOB (JObj [(''scope'', JStr ''visiting''), (''cids'', JArr [JStr ''1234567'']),
                   (''cursor'', JNum 0), (''total'', JNum 1), (''created_at'', JNum 1711929600)])"
    by (simp add: longLived_def isJob_def key_defs startsWith_def)
  from sweep_deletes_only_expired_entries [OF ld run] j s
  have "map_of (doc w') KV_JOB = map_of (doc worldSweep) KV_JOB" by simp
  with run j sweep_run show ?thesis by simp
qed

section \<open>Presence transitions\<close>

lemma wasOnline_cong: "map_of st' c = map_of st c \<Longrightarrow> wasOnline st' c = wasOnline st c"
  by (simp add: wasOnline_def)

lemma transitionEntry_cong:
  "map_of st' c = map_of st c \<Longrightarrow> transitionEntry t P st' c = transitionEntry t P st c"
  by (simp add: transitionEntry_def)

lemma presenceStep_effect:
  assumes "presenceStep t P cid (st, ch) = (st1, ch1)"
  shows "map_of st1 cid = (if wasOnline st cid = nowOnline P cid then map_of st cid
                           else Some (transitionEntry t P st cid)) \<and>
         (\<forall>c. c \<noteq> cid \<longrightarrow> map_of st1 c = map_of st c) \<and>
         wasOnline st1 cid = nowOnline P cid \<and>
         (ch1 \<longleftrightarrow> ch \<or> wasOnline st cid \<noteq> nowOnline P cid) \<and>
         (wasOnline st cid = nowOnline P cid \<longrightarrow> st1 = st)"
  using assms
  by (auto simp add: presenceStep_def transitionEntry_def Let_def update_conv' wasOnline_def
        orElse_def split: if_splits)

lemma presence_fold_effect:
  assumes "fold (presenceStep t P) ks (st, ch) = (st', ch')"
  shows "(\<forall>c. c \<notin> set ks \<longrightarrow> map_of st' c = map_of st c) \<and>
         (\<forall>c \<in> set ks. wasOnline st' c = nowOnline P c \<and>
              map_of st' c = (if wasOnline st c = nowOnline P c then map_of st c
                              else Some (transitionEntry t P st c))) \<and>
         (ch' \<longleftrightarrow> ch \<or> (\<exists>c \<in> set ks. wasOnline st c \<noteq> nowOnline P c))"
  using assms
proof (induction ks arbitrary: st ch)
  case Nil
  then show ?case by simp
next
  case (Cons a r)
  obtain st1 ch1 where s1: "presenceStep t P a (st, ch) = (st1, ch1)"
    by (cases "presenceStep t P a (st, ch)")
  note e1 = presenceStep_effect [OF s1]
  from Cons.prems s1 have "fold (presenceStep t P) r (st1, ch1) = (st', ch')" by simp
  note ih = Cons.IH [OF this]
  from e1 have other: "\<And>c. c \<noteq> a \<Longrightarrow> map_of st1 c = map_of st c" by simp
  have w1: "\<And>c. c \<noteq> a \<Longrightarrow> wasOnline st1 c = wasOnline st c"
    by (rule wasOnline_cong) (rule other)
  have t1: "\<And>c. c \<noteq> a \<Longrightarrow> transitionEntry t P st1 c = transitionEntry t P st c"
    by (rule transitionEntry_cong) (rule other)
  have a: "wasOnline st' a = nowOnline P a \<and>
           map_of st' a = (if wasOnline st a = nowOnline P a then map_of st a
                           else Some (transitionEntry t P st a))"
  proof (cases "a \<in> set r")
    case True
    with ih e1 show ?thesis by simp
  next
    case False
    with ih have "map_of st' a = map_of st1 a" by simp
    with e1 wasOnline_cong [OF this] show ?thesis by simp
  qed
  have rest: "wasOnline st' c = nowOnline P c \<and>
           map_of st' c = (if wasOnline st c = nowOnline P c then map_of st c
                           else Some (transitionEntry t P st c))" if "c \<in> set r" "c \<noteq> a" for c
    using ih that w1 [OF that(2)] t1 [OF that(2)] other [OF that(2)] by simp
  have out: "map_of st' c = map_of st c" if "c \<notin> set (a # r)" for c
    using ih that other [of c] by simp
  have chg: "ch' \<longleftrightarrow> ch \<or> (\<exists>c \<in> set (a # r). wasOnline st c \<noteq> nowOnline P c)"
  proof -
    from ih have "ch' \<longleftrightarrow> ch1 \<or> (\<exists>c \<in> set r. wasOnline st1 c \<noteq> nowOnline P c)" by simp
    moreover have "(\<exists>c \<in> set r. wasOnline st1 c \<noteq> nowOnline P c)
                    \<longleftrightarrow> (\<exists>c \<in> set r. c \<noteq> a \<and> wasOnline st c \<noteq> nowOnline P c)"
      using e1 w1 by metis
    ultimately show ?thesis using e1 by auto
  qed
  have both: "\<forall>c \<in> set (a # r). wasOnline st' c = nowOnline P c \<and>
           map_of st' c = (if wasOnline st c = nowOnline P c then map_of st c
                           else Some (transitionEntry t P st c))"
  proof
    fix c assume "c \<in> set (a # r)"
    then consider "c = a" | "c \<in> set r" "c \<noteq> a" by auto
    then show "wasOnline st' c = nowOnline P c \<and>
           map_of st' c = (if wasOnline st c = nowOnline P c then map_of st c
                           else Some (transitionEntry t P st c))"
    proof cases
      case 1
      with a show ?thesis by simp
    next
      case 2
      then show ?thesis by (rule rest)
    qed
  qed
  from out have "\<forall>c. c \<notin> set (a # r) \<longrightarrow> map_of st' c = map_of st c" by blast
  with both chg show ?case by blast
qed

lemma presence_fold_steady:
  assumes "\<forall>c \<in> set ks. wasOnline st c = nowOnline P c"
  shows "fold (presenceStep t P) ks (st, False) = (st, False)"
  using assms
proof (induction ks)
  case Nil
  then show ?case by simp
next
  case (Cons a r)
  then have "presenceStep t P a (st, False) = (st, False)"
    by (auto simp add: presenceStep_def Let_def)
  with Cons show ?case by simp
qed


lemma offline_unknown:
  "c \<notin> set (map fst st) \<Longrightarrow> \<not> wasOnline st c"
  "c \<notin> set (map fst P) \<Longrightarrow> \<not> nowOnline P c"
proof -
  assume "c \<notin> set (map fst st)"
  then have "map_of st c = None" by (simp add: map_of_eq_None_iff)
  then show "\<not> wasOnline st c" by (simp add: wasOnline_def orElse_def)
next
  assume "c \<notin> set (map fst P)"
  then have "map_of P c = None" by (simp add: map_of_eq_None_iff)
  then show "\<not> nowOnline P c" by (simp add: nowOnline_def orElse_def)
qed

lemma presence_pass:
  assumes "fold (presenceStep t P) (setOf (map fst st @ map fst P)) (st, False) = (st', ch)"
  shows "(\<forall>c. wasOnline st' c = nowOnline P c) \<and>
         (\<forall>c. map_of st' c = (if wasOnline st c = nowOnline P c then map_of st c
                               else Some (transitionEntry t P st c))) \<and>
         (ch \<longleftrightarrow> (\<exists>c. wasOnline st c \<noteq> nowOnline P c)) \<and>
         (\<not> ch \<longrightarrow> st' = st)"
proof -
  let ?ks = "setOf (map fst st @ map fst P)"
  note e = presence_fold_effect [OF assms]
  have ks: "set ?ks = set (map fst st) \<union> set (map fst P)" by (simp add: setOf_set)
  have out: "wasOnline st c = nowOnline P c" if "c \<notin> set ?ks" for c
    using that offline_unknown [of c] unfolding ks by auto
  have m: "map_of st' c = (if wasOnline st c = nowOnline P c then map_of st c
                           else Some (transitionEntry t P st c))" for c
    using e out [of c] by (cases "c \<in> set ?ks") auto
  have w: "wasOnline st' c = nowOnline P c" for c
  proof (cases "c \<in> set ?ks")
    case True
    with e show ?thesis by simp
  next
    case False
    with e have "map_of st' c = map_of st c" by simp
    from wasOnline_cong [OF this] out [OF False] show ?thesis by simp
  qed
  have c: "ch \<longleftrightarrow> (\<exists>c. wasOnline st c \<noteq> nowOnline P c)"
    using e out by auto
  have "st' = st" if "\<not> ch"
  proof -
    from that c have "\<forall>c \<in> set ?ks. wasOnline st c = nowOnline P c" by simp
    from presence_fold_steady [OF this, of t] assms show ?thesis by simp
  qed
  with m w c show ?thesis by blast
qed

lemma getOnlineMap_frame:
  assumes "getOnlineMap w = (P, w1)"
  shows "GH_STORE w1 = GH_STORE w \<and> GH_STORE_DIRTY w1 = GH_STORE_DIRTY w \<and>
         GH_STORE_SHA w1 = GH_STORE_SHA w"
proof -
  obtain r w' where t: "trackedFetch VATSIM_DATA_URL w = (r, w')"
    by (cases "trackedFetch VATSIM_DATA_URL w")
  with assms have "w1 = w'"
    by (auto simp add: getOnlineMap_def split: option.splits if_splits body.splits)
  with trackedFetch_frame [OF t] show ?thesis by simp
qed

lemma runPresence_loaded:
  assumes l: "GH_STORE w = Some d"
      and wl: "isArray (storeGet KV_WATCHLIST (JArr []) w)"
      and s: "storeGet KV_STATE (JObj []) w = JObj st"
      and feed: "getOnlineMap w = (P, w1)"
  shows "runPresence e w =
           (case fold (presenceStep (ts w1) P) (setOf (map fst st @ map fst P)) (st, False) of
              (st', changed) \<Rightarrow>
                if changed then (Inr (), storeSet KV_STATE (JObj st') w1) else (Inr (), w1))"
proof -
  from wl obtain xs where "storeGet KV_WATCHLIST (JArr []) w = JArr xs"
    by (auto simp add: isArray_def split: json.splits)
  then have ms: "mapString name (storeGet KV_WATCHLIST (JArr []) w) = Inr (map jsString xs)" for name
    by (simp add: mapString_def)
  from getOnlineMap_frame [OF feed] l have l1: "GH_STORE w1 = Some d" by simp
  from l ms s feed l1 show ?thesis
    by (simp add: runPresence_def bindM_def kvGetJSON_loaded presenceDiff_def kvPutJSON_loaded
          split: prod.splits)
qed


text \<open>
  Claim C6. On a loaded document whose \<^verbatim>\<open>online_state\<close> is an object, with the feed
  map \<open>P\<close>: when no CID differs between its recorded and its current online status,
  \<^verbatim>\<open>runPresence\<close> writes nothing (only the feed was fetched); when some CID differs, it
  stores the new state and marks the store dirty. In the new state a CID that came
  online has \<^verbatim>\<open>last_info\<close> from the feed, a CID that went offline keeps the
  \<^verbatim>\<open>last_info\<close> it had, every other entry is as before. A following tick on the
  document this one left, with a feed in which the same CIDs are online, writes
  nothing: the store, \<^verbatim>\<open>online_state\<close> in it, is unchanged.
\<close>

theorem presence_writes_only_transitions:
  assumes l: "GH_STORE w = Some d"
      and wl: "isArray (storeGet KV_WATCHLIST (JArr []) w)"
      and s: "storeGet KV_STATE (JObj []) w = JObj st"
      and feed: "getOnlineMap w = (P, w1)"
  shows "\<exists>st'.
           (\<forall>cid. map_of st' cid =
                    (if wasOnline st cid = nowOnline P cid then map_of st cid
                     else Some (transitionEntry (ts w1) P st cid))) \<and>
           ((\<forall>cid. wasOnline st cid = nowOnline P cid) \<longrightarrow> runPresence e w = (Inr (), w1)) \<and>
           ((\<exists>cid. wasOnline st cid \<noteq> nowOnline P cid)
              \<longrightarrow> runPresence e w = (Inr (), storeSet KV_STATE (JObj st') w1)) \<and>
           (\<forall>u P2 u1.
              GH_STORE u = GH_STORE (snd (runPresence e w)) \<and> getOnlineMap u = (P2, u1) \<and>
              (\<forall>cid. nowOnline P2 cid = nowOnline P cid)
                \<longrightarrow> runPresence e u = (Inr (), u1) \<and> GH_STORE u1 = GH_STORE u \<and>
                    GH_STORE_DIRTY u1 = GH_STORE_DIRTY u)"
proof -
  obtain st' ch where
    f: "fold (presenceStep (ts w1) P) (setOf (map fst st @ map fst P)) (st, False) = (st', ch)"
    by (cases "fold (presenceStep (ts w1) P) (setOf (map fst st @ map fst P)) (st, False)")
  note p = presence_pass [OF f]
  note r = runPresence_loaded [OF l wl s feed, of e]
  from getOnlineMap_frame [OF feed] l have l1: "GH_STORE w1 = Some d" by simp
  have quiet: "runPresence e w = (Inr (), w1)" if "\<forall>cid. wasOnline st cid = nowOnline P cid"
    using r f p that by simp
  have loud: "runPresence e w = (Inr (), storeSet KV_STATE (JObj st') w1)"
    if "\<exists>cid. wasOnline st cid \<noteq> nowOnline P cid"
    using r f p that by simp
  have again: "runPresence e u = (Inr (), u1) \<and> GH_STORE u1 = GH_STORE u \<and>
               GH_STORE_DIRTY u1 = GH_STORE_DIRTY u"
    if u: "GH_STORE u = GH_STORE (snd (runPresence e w))" and f2: "getOnlineMap u = (P2, u1)"
      and same: "\<forall>cid. nowOnline P2 cid = nowOnline P cid" for u P2 u1
  proof -
    have "\<exists>d2. GH_STORE u = Some d2 \<and>
               storeGet KV_WATCHLIST (JArr []) u = storeGet KV_WATCHLIST (JArr []) w \<and>
               storeGet KV_STATE (JObj []) u = JObj st'"
    proof (cases ch)
      case True
      with p loud have "runPresence e w = (Inr (), storeSet KV_STATE (JObj st') w1)" by simp
      with u l1 l show ?thesis
        by (simp add: storeSet_def storeGet_def doc_def update_conv' key_defs)
    next
      case False
      with p quiet have "runPresence e w = (Inr (), w1)" and "st' = st" by simp_all
      with u l1 l s show ?thesis by (simp add: storeGet_def doc_def)
    qed
    then obtain d2 where l2: "GH_STORE u = Some d2"
      and wl2: "isArray (storeGet KV_WATCHLIST (JArr []) u)"
      and s2: "storeGet KV_STATE (JObj []) u = JObj st'"
      using wl by auto
    from p same have "\<forall>c \<in> set (setOf (map fst st' @ map fst P2)). wasOnline st' c = nowOnline P2 c"
      by simp
    from presence_fold_steady [OF this, of "ts u1"] runPresence_loaded [OF l2 wl2 s2 f2, of e]
    have "runPresence e u = (Inr (), u1)" by simp
    with getOnlineMap_frame [OF f2] show ?thesis by simp
  qed
  from p quiet loud again show ?thesis by blast
qed

lemma presence_feed:
  "getOnlineMap worldPresence =
     ([(''1234567'', JObj [(''callsign'', JStr ''ML-APP_CTR''), (''frequency'', JStr ''132.200''),
                           (''name'', JNull), (''last_seen'', JNum 1743465600)])],
      worldPresence\<lparr>subreqCount := 1, net := [],
                     sent := [DataReq ''https://data.vatsim.net/v3/vatsim-data.json'']\<rparr>)"
  by (simp add: tick_defs worldPresence_def world_defs store_defs net_defs num_defs)

lemma presence_first_world:
  "snd (runPresence env0 worldPresence) =
     worldPresence
       \<lparr>GH_STORE := Some
          [(''watchlist'', JArr [JStr ''1234567'', JStr ''7654321'']),
           (''online_state'',
            JObj
             [(''7654321'',
               JObj [(''online'', JBool False), (''last_change'', JNum 1743465600),
                     (''last_info'', JObj [(''callsign'', JStr ''SY_TWR'')])]),
              (''1234567'',
               JObj [(''online'', JBool True), (''last_change'', JNum 1743465600),
                     (''last_info'',
                      JObj [(''callsign'', JStr ''ML-APP_CTR''), (''frequency'', JStr ''132.200''),
                            (''name'', JNull), (''last_seen'', JNum 1743465600)])])])],
        GH_STORE_DIRTY := True, subreqCount := 1, net := [],
        sent := [DataReq ''https://data.vatsim.net/v3/vatsim-data.json'']\<rparr>"
  by (simp add: tick_defs worldPresence_def world_defs store_defs net_defs num_defs key_defs)

lemma presence_first_tick:
  "map_of (doc (snd (runPresence env0 worldPresence))) KV_STATE =
     Some (JObj
       [(''7654321'',
         JObj [(''online'', JBool False), (''last_change'', JNum 1743465600),
               (''last_info'', JObj [(''callsign'', JStr ''SY_TWR'')])]),
        (''1234567'',
         JObj [(''online'', JBool True), (''last_change'', JNum 1743465600),
               (''last_info'',
                JObj [(''callsign'', JStr ''ML-APP_CTR''), (''frequency'', JStr ''132.200''),
                      (''name'', JNull), (''last_seen'', JNum 1743465600)])])])"
  by (simp add: tick_defs worldPresence_def world_defs store_defs net_defs num_defs key_defs)

theorem presence_writes_only_transitions_witness:
  "map_of (doc (snd (runPresence env0 worldPresence))) KV_STATE =
     Some (JObj
       [(''7654321'',
         JObj [(''online'', JBool False), (''last_change'', JNum 1743465600),
               (''last_info'', JObj [(''callsign'', JStr ''SY_TWR'')])]),
        (''1234567'',
         JObj [(''online'', JBool True), (''last_change'', JNum 1743465600),
               (''last_info'',
                JObj [(''callsign'', JStr ''ML-APP_CTR''), (''frequency'', JStr ''132.200''),
                      (''name'', JNull), (''last_seen'', JNum 1743465600)])])]) \<and>
   GH_STORE (snd (runPresence env0 worldPresence2)) = GH_STORE (snd (runPresence env0 worldPresence))"
proof -
  let ?P = "[(''1234567'', JObj [(''callsign'', JStr ''ML-APP_CTR''), (''frequency'', JStr ''132.200''),
                           (''name'', JNull), (''last_seen'', JNum 1743465600)])]"
  let ?P2 = "[(''1234567'', JObj [(''callsign'', JStr ''ML-APP_CTR''), (''frequency'', JStr ''132.200''),
                           (''name'', JNull), (''last_seen'', JNum 1743465900)])]"
  have l: "GH_STORE worldPresence = Some (doc worldPresence)"
    by (simp add: worldPresence_def world_defs doc_def)
  have wl: "isArray (storeGet KV_WATCHLIST (JArr []) worldPresence)"
    by (simp add: worldPresence_def world_defs storeGet_def doc_def key_defs isArray_def)
  have s: "storeGet KV_STATE (JObj []) worldPresence =
             JObj [(''7654321'',
                     JObj [(''online'', JBool True), (''last_change'', JNum 1743460000),
                           (''last_info'', JObj [(''callsign'', JStr ''SY_TWR'')])])]"
    by (simp add: worldPresence_def world_defs storeGet_def doc_def key_defs)
  have u: "GH_STORE worldPresence2 = GH_STORE (snd (runPresence env0 worldPresence))"
    by (simp add: worldPresence2_def)
  have f2: "getOnlineMap worldPresence2 =
              (?P2, snd (trackedFetch VATSIM_DATA_URL worldPresence2))"
    unfolding worldPresence2_def presence_first_world
    by (simp add: tick_defs worldPresence_def world_defs store_defs net_defs num_defs)
  have same: "\<forall>cid. nowOnline ?P2 cid = nowOnline ?P cid"
    by (simp add: nowOnline_def orElse_def)
  from presence_writes_only_transitions [OF l wl s presence_feed, of env0] u f2 same
  have "runPresence env0 worldPresence2 = (Inr (), snd (trackedFetch VATSIM_DATA_URL worldPresence2)) \<and>
        GH_STORE (snd (trackedFetch VATSIM_DATA_URL worldPresence2)) = GH_STORE worldPresence2"
    by blast
  with u presence_first_tick show ?thesis by simp
qed

end
